theory Spec2Isabelle
  imports Complex_Main "HOL-Library.Word"
begin

section \<open>Python exceptions and coroutine outcomes\<close>

text \<open>
  The exceptions that the modelled part of \<^verbatim>\<open>discordflow/utils.py\<close> can raise.
  \<open>UnboundLocalError\<close> is Python's subclass of \<open>NameError\<close> raised when a local
  variable is read before it was bound. \<open>UserError\<close> stands for any exception class of
  the wrapped coroutines and generators themselves.
\<close>

datatype pyerr =
    ValueError string
  | RuntimeError string
  | AttributeError string
  | TypeError string
  | UnboundLocalError string
  | ZeroDivisionError
  | OverflowError
  | CancelledError
  | StopAsyncIteration
  | TimeoutError
  | EOFError
  | AudioopError
  | WaveError
  | StructError
  | UserError nat

definition isinstance_NameError :: "pyerr \<Rightarrow> bool" where
  "isinstance_NameError e = (case e of UnboundLocalError _ \<Rightarrow> True | _ \<Rightarrow> False)"

text \<open>
  An awaitable ends by returning a value (\<open>Inr\<close>) or by raising (\<open>Inl\<close>); a cancelled
  one ends with \<open>Inl CancelledError\<close>. A coroutine is described by the two ways the
  event loop can drive it to its end: left alone (\<open>normally\<close>), or cancelled while it
  is still unfinished (\<open>on_cancel\<close>, which is \<open>Inl CancelledError\<close> unless the
  coroutine intercepts the cancellation).
\<close>

type_synonym 'v outcome = "pyerr + 'v"

record 'v coro =
  normally :: "'v outcome"
  on_cancel :: "'v outcome"

text \<open>
  An asyncio task: \<open>Fresh\<close> right after \<^verbatim>\<open>create_task\<close> (its coroutine has not run
  yet), \<open>Pending\<close> once the loop has started it and it is suspended, \<open>Done\<close> with its
  outcome.
\<close>

datatype 'v task = Fresh "'v coro" | Pending "'v coro" | Done "'v outcome"

definition create_task :: "'v coro \<Rightarrow> 'v task" where
  "create_task c = Fresh c"

text \<open>The event loop running a task until it is done, with nobody cancelling it.\<close>

fun run_task :: "'v task \<Rightarrow> 'v task" where
  "run_task (Fresh c) = Done (normally c)"
| "run_task (Pending c) = Done (normally c)"
| "run_task (Done oc) = Done oc"

text \<open>
  \<^verbatim>\<open>task.cancel()\<close> followed by \<^verbatim>\<open>await task\<close>, as seen by the awaiting caller: a
  task that never ran is cancelled before its coroutine executes anything, a suspended
  one reacts as its coroutine does, a finished one keeps its outcome.
\<close>

fun cancel_and_await :: "'v task \<Rightarrow> 'v outcome" where
  "cancel_and_await (Fresh c) = Inl CancelledError"
| "cancel_and_await (Pending c) = on_cancel c"
| "cancel_and_await (Done oc) = oc"

text \<open>\<^verbatim>\<open>await task\<close> on a task that nobody cancels.\<close>

fun await_task :: "'v task \<Rightarrow> 'v outcome" where
  "await_task (Fresh c) = normally c"
| "await_task (Pending c) = normally c"
| "await_task (Done oc) = oc"

text \<open>\<^verbatim>\<open>with suppress(asyncio.CancelledError): await ...\<close> whose value is not used.\<close>

fun suppress_cancelled :: "'v outcome \<Rightarrow> pyerr + unit" where
  "suppress_cancelled (Inl CancelledError) = Inr ()"
| "suppress_cancelled (Inl e) = Inl e"
| "suppress_cancelled (Inr v) = Inr ()"

section \<open>Supervised background task (\<^verbatim>\<open>BackgroundTask\<close>)\<close>

text \<open>
  \<^verbatim>\<open>wrap\<close> awaits the coroutine and has no \<^verbatim>\<open>return\<close>: on success it yields
  Python's \<open>None\<close> (here \<open>None :: 'v option\<close>), exceptions are logged and re-raised,
  and \<open>CancelledError\<close>, which is no \<^verbatim>\<open>Exception\<close>, passes through.
\<close>

fun wrap_outcome :: "'v outcome \<Rightarrow> ('v option) outcome" where
  "wrap_outcome (Inr v) = Inr None"
| "wrap_outcome (Inl e) = Inl e"

definition wrap :: "'v coro \<Rightarrow> ('v option) coro" where
  "wrap c = \<lparr>normally = wrap_outcome (normally c), on_cancel = wrap_outcome (on_cancel c)\<rparr>"

record 'v BackgroundTask =
  bt_task :: "('v option) task option"

definition BackgroundTask_init :: "'v BackgroundTask" where
  "BackgroundTask_init = \<lparr>bt_task = None\<rparr>"

definition start :: "'v BackgroundTask \<Rightarrow> 'v coro \<Rightarrow> (pyerr + unit) \<times> 'v BackgroundTask" where
  "start self c =
     (if bt_task self \<noteq> None then (Inl (RuntimeError ''{self!r} is already running''), self)
      else (Inr (), self\<lparr>bt_task := Some (create_task (wrap c))\<rparr>))"

definition stop :: "'v BackgroundTask \<Rightarrow> ('v option) outcome \<times> 'v BackgroundTask" where
  "stop self =
     (let t = bt_task self; self' = self\<lparr>bt_task := None\<rparr> in
      case t of
        None \<Rightarrow> (Inl (AttributeError ''NoneType object has no attribute done''), self')
      | Some (Done oc) \<Rightarrow> (oc, self')
      | Some tk \<Rightarrow>
          (case suppress_cancelled (cancel_and_await tk) of
             Inl e \<Rightarrow> (Inl e, self')
           | Inr _ \<Rightarrow> (Inr None, self')))"

text \<open>
  The event loop between two calls: \<open>loop_starts\<close> gives the held task its first
  slice (it is then suspended), \<open>finish\<close> lets it run to its end.
\<close>

definition loop_starts :: "'v BackgroundTask \<Rightarrow> 'v BackgroundTask" where
  "loop_starts self =
     self\<lparr>bt_task := map_option (\<lambda>t. case t of Fresh c \<Rightarrow> Pending c | _ \<Rightarrow> t) (bt_task self)\<rparr>"

definition finish :: "'v BackgroundTask \<Rightarrow> 'v BackgroundTask" where
  "finish self = self\<lparr>bt_task := map_option run_task (bt_task self)\<rparr>"

section \<open>Cancellable stream wrapper (\<^verbatim>\<open>CancellableAsyncGenerator\<close>)\<close>

text \<open>
  The wrapped asynchronous generator is the list of coroutines its successive
  \<^verbatim>\<open>__anext__()\<close> calls return; once they are used up, \<^verbatim>\<open>__anext__()\<close> raises
  \<open>StopAsyncIteration\<close>.
\<close>

type_synonym 'a agen = "'a coro list"

fun gen_anext :: "'a agen \<Rightarrow> 'a coro \<times> 'a agen" where
  "gen_anext [] = (\<lparr>normally = Inl StopAsyncIteration, on_cancel = Inl CancelledError\<rparr>, [])"
| "gen_anext (c # cs) = (c, cs)"

text \<open>
  An instance attribute that \<^verbatim>\<open>__init__\<close> may not have assigned: reading a
  \<open>Missing\<close> one raises \<open>AttributeError\<close>.
\<close>

datatype 'a slot = Missing | Holds "'a option"

record 'a CancellableAsyncGenerator =
  cag_gen :: "'a agen option"
  cag_task :: "'a task slot"

text \<open>\<^verbatim>\<open>__init__\<close> assigns \<^verbatim>\<open>self.gen\<close> only.\<close>

definition CancellableAsyncGenerator_init :: "'a agen \<Rightarrow> 'a CancellableAsyncGenerator" where
  "CancellableAsyncGenerator_init g = \<lparr>cag_gen = Some g, cag_task = Missing\<rparr>"

definition aclose ::
  "'a CancellableAsyncGenerator \<Rightarrow> (pyerr + unit) \<times> 'a CancellableAsyncGenerator" where
  "aclose self =
     (case cag_gen self of
        None \<Rightarrow> (Inr (), self)
      | Some g \<Rightarrow>
          (case cag_task self of
             Missing \<Rightarrow>
               (Inl (AttributeError ''CancellableAsyncGenerator object has no attribute task''), self)
           | Holds t \<Rightarrow>
               (let tk = (case t of Some tk \<Rightarrow> tk | None \<Rightarrow> create_task (fst (gen_anext g)));
                    self' = self\<lparr>cag_task := Holds None, cag_gen := None\<rparr>
                in (suppress_cancelled (cancel_and_await tk), self'))))"

text \<open>
  \<^verbatim>\<open>__anext__\<close> up to its \<^verbatim>\<open>await self.task\<close> (\<open>anext_begin\<close>: \<open>Inr ()\<close> means it is
  now suspended on the new task), and from the moment that task has ended with
  outcome \<open>oc\<close> (\<open>anext_resume\<close>).
\<close>

definition anext_begin ::
  "'a CancellableAsyncGenerator \<Rightarrow> (pyerr + unit) \<times> 'a CancellableAsyncGenerator" where
  "anext_begin self =
     (case cag_gen self of
        Some g \<Rightarrow>
          (Inr (), self\<lparr>cag_gen := Some (snd (gen_anext g)),
                         cag_task := Holds (Some (create_task (fst (gen_anext g))))\<rparr>)
      | None \<Rightarrow> (Inl StopAsyncIteration, self))"

definition anext_resume ::
  "'a CancellableAsyncGenerator \<Rightarrow> 'a outcome \<Rightarrow> 'a outcome \<times> 'a CancellableAsyncGenerator" where
  "anext_resume self oc =
     (case oc of
        Inl CancelledError \<Rightarrow>
          (if cag_gen self = None then Inl StopAsyncIteration else Inl CancelledError)
      | _ \<Rightarrow> oc,
      self\<lparr>cag_task := Holds None\<rparr>)"

section \<open>Timed-next wrapper (\<^verbatim>\<open>AsyncTimedIterator\<close>)\<close>

text \<open>
  What one \<^verbatim>\<open>__anext__\<close> call hands back: the value of the awaited fetch, or the
  sentinel from the \<^verbatim>\<open>except asyncio.TimeoutError\<close> branch.
\<close>

datatype 'a timed = Item 'a | Sentinel

record 'a AsyncTimedIterator =
  ati_iterator :: "'a agen"
  ati_task :: "'a task option"

definition AsyncTimedIterator_init :: "'a agen \<Rightarrow> 'a AsyncTimedIterator" where
  "AsyncTimedIterator_init g = \<lparr>ati_iterator = g, ati_task = None\<rparr>"

text \<open>
  The task this call awaits and the iterator afterwards: the stored task if there is
  one, else a new fetch from the iterator.
\<close>

definition awaited :: "'a AsyncTimedIterator \<Rightarrow> 'a task \<times> 'a agen" where
  "awaited self =
     (case ati_task self of
        Some tk \<Rightarrow> (tk, ati_iterator self)
      | None \<Rightarrow> (create_task (fst (gen_anext (ati_iterator self))), snd (gen_anext (ati_iterator self))))"

text \<open>
  \<open>in_time\<close> says whether the shielded task is done before the timeout of this call
  expires. The shield keeps the timeout from cancelling the task itself.
\<close>

definition timed_anext ::
  "bool \<Rightarrow> 'a AsyncTimedIterator \<Rightarrow> ('a timed) outcome \<times> 'a AsyncTimedIterator" where
  "timed_anext in_time self =
     (let tk = fst (awaited self);
          self1 = self\<lparr>ati_iterator := snd (awaited self), ati_task := None\<rparr>
      in if in_time then
           (case await_task tk of
              Inl TimeoutError \<Rightarrow> (Inr Sentinel, self1\<lparr>ati_task := Some (run_task tk)\<rparr>)
            | Inl e \<Rightarrow> (Inl e, self1)
            | Inr x \<Rightarrow> (Inr (Item x), self1))
         else (Inr Sentinel, self1\<lparr>ati_task := Some tk\<rparr>))"

text \<open>A run of calls, one flag per call; a raised exception does not end the run.\<close>

fun advances ::
  "bool list \<Rightarrow> 'a AsyncTimedIterator \<Rightarrow> ('a timed) outcome list \<times> 'a AsyncTimedIterator" where
  "advances [] self = ([], self)"
| "advances (b # bs) self =
     (let r = timed_anext b self; rs = advances bs (snd r) in (fst r # fst rs, snd rs))"

fun items :: "('a timed) outcome list \<Rightarrow> 'a list" where
  "items [] = []"
| "items (Inr (Item x) # rs) = x # items rs"
| "items (_ # rs) = items rs"

text \<open>A generator that yields the given elements, one per fetch, and then ends.\<close>

definition yielding :: "'a list \<Rightarrow> 'a agen" where
  "yielding xs = map (\<lambda>x. \<lparr>normally = Inr x, on_cancel = Inl CancelledError\<rparr>) xs"

definition item_coro :: "'a \<Rightarrow> 'a coro" where
  "item_coro x = \<lparr>normally = Inr x, on_cancel = Inl CancelledError\<rparr>"

definition stop_coro :: "'a coro" where
  "stop_coro = \<lparr>normally = Inl StopAsyncIteration, on_cancel = Inl CancelledError\<rparr>"

text \<open>The element, if any, that the stored fetch will deliver.\<close>

fun in_flight :: "'a task option \<Rightarrow> 'a list" where
  "in_flight (Some (Fresh c)) = (case normally c of Inr x \<Rightarrow> [x] | Inl _ \<Rightarrow> [])"
| "in_flight _ = []"

text \<open>
  The states a run over \<open>yielding xs\<close> can reach: the stored task, if any, is a fetch
  created by this wrapper, and the end-of-sequence fetch is stored only once the
  generator is used up.
\<close>

definition ati_inv :: "'a AsyncTimedIterator \<Rightarrow> 'a list \<Rightarrow> bool" where
  "ati_inv s xs = (ati_iterator s = yielding xs \<and>
     (case ati_task s of None \<Rightarrow> True
      | Some t \<Rightarrow> (case xs of [] \<Rightarrow> t = Fresh stop_coro \<or> t \<in> range (\<lambda>x. Fresh (item_coro x))
                   | _ \<Rightarrow> t \<in> range (\<lambda>x. Fresh (item_coro x)))))"

section \<open>Python floats\<close>

text \<open>
  A Python \<^verbatim>\<open>float\<close> is an IEEE 754 double: a finite one is the rational it
  denotes (the sign of zero is not kept). \<open>round_double\<close> rounds a rational to the
  nearest double, ties to even, with 53 significant bits and the smallest exponent of
  the subnormal range; \<open>float_of_rat\<close> adds the overflow to infinity.
\<close>

function bit_length :: "int \<Rightarrow> int" where
  "bit_length n = (if n \<le> 0 then 0 else 1 + bit_length (n div 2))"
  by pat_completeness auto
termination
  by (relation "measure nat") auto

declare bit_length.simps [simp del]

text \<open>\<open>ilog2 x\<close> is the integer part of the binary logarithm of a positive \<open>x\<close>.\<close>

definition ilog2 :: "rat \<Rightarrow> int" where
  "ilog2 x = (let k = bit_length (fst (quotient_of x)) - bit_length (snd (quotient_of x))
              in if 2 powi k \<le> x then k else k - 1)"

definition round_half_even :: "rat \<Rightarrow> int" where
  "round_half_even x =
     (let f = \<lfloor>x\<rfloor>; r = x - of_int f
      in if r < 1 / 2 then f else if r > 1 / 2 then f + 1 else if even f then f else f + 1)"

definition round_double :: "rat \<Rightarrow> rat" where
  "round_double x =
     (if x = 0 then 0
      else let u = 2 powi (max (ilog2 \<bar>x\<bar>) (- 1022) - 52)
           in of_int (round_half_even (x / u)) * u)"

datatype pyfloat = Finite rat | PosInf | NegInf | NaN

definition float_of_rat :: "rat \<Rightarrow> pyfloat" where
  "float_of_rat q =
     (let r = round_double q
      in if r \<ge> 2 ^ 1024 then PosInf else if r \<le> - (2 ^ 1024) then NegInf else Finite r)"

fun float_add :: "pyfloat \<Rightarrow> pyfloat \<Rightarrow> pyfloat" where
  "float_add (Finite x) (Finite y) = float_of_rat (x + y)"
| "float_add NaN _ = NaN"
| "float_add _ NaN = NaN"
| "float_add PosInf NegInf = NaN"
| "float_add NegInf PosInf = NaN"
| "float_add PosInf _ = PosInf"
| "float_add _ PosInf = PosInf"
| "float_add NegInf _ = NegInf"
| "float_add _ NegInf = NegInf"

fun float_neg :: "pyfloat \<Rightarrow> pyfloat" where
  "float_neg (Finite x) = Finite (- x)"
| "float_neg PosInf = NegInf"
| "float_neg NegInf = PosInf"
| "float_neg NaN = NaN"

definition float_sub :: "pyfloat \<Rightarrow> pyfloat \<Rightarrow> pyfloat" where
  "float_sub x y = float_add x (float_neg y)"

text \<open>
  \<^verbatim>\<open>a / b\<close> on two Python integers: the correctly rounded quotient, or
  \<open>ZeroDivisionError\<close>, or \<open>OverflowError\<close> when the quotient is too large for a
  double.
\<close>

definition int_truediv :: "int \<Rightarrow> int \<Rightarrow> pyerr + pyfloat" where
  "int_truediv a b =
     (if b = 0 then Inl ZeroDivisionError
      else case float_of_rat (of_int a / of_int b) of
             Finite r \<Rightarrow> Inr (Finite r)
           | _ \<Rightarrow> Inl OverflowError)"

section \<open>PCM audio buffer (\<^verbatim>\<open>Audio\<close>)\<close>

type_synonym byte = "8 word"

record Audio =
  channels :: int
  width :: int
  rate :: int
  data :: "byte list"

definition framewidth :: "Audio \<Rightarrow> int" where
  "framewidth self = channels self * width self"

text \<open>
  \<^verbatim>\<open>len(self)\<close>: \<^verbatim>\<open>__len__\<close> is a floor division, which raises on a zero frame
  width, and the builtin \<^verbatim>\<open>len\<close> refuses a negative result.
\<close>

definition len :: "Audio \<Rightarrow> pyerr + int" where
  "len self =
     (if framewidth self = 0 then Inl ZeroDivisionError
      else let n = int (length (data self)) div framewidth self
           in if n < 0 then Inl (ValueError ''__len__() should return >= 0'') else Inr n)"

text \<open>\<^verbatim>\<open>__bool__\<close>: the truth value of a buffer.\<close>

definition Audio_bool :: "Audio \<Rightarrow> pyerr + bool" where
  "Audio_bool self = (case len self of Inl e \<Rightarrow> Inl e | Inr n \<Rightarrow> Inr (n > 0))"

definition duration :: "Audio \<Rightarrow> pyerr + pyfloat" where
  "duration self = (case len self of Inl e \<Rightarrow> Inl e | Inr n \<Rightarrow> int_truediv n (rate self))"

definition clone :: "Audio \<Rightarrow> byte list \<Rightarrow> Audio" where
  "clone self d = \<lparr>channels = channels self, width = width self, rate = rate self, data = d\<rparr>"

text \<open>\<^verbatim>\<open>__add__\<close>: concatenation, refused between different formats.\<close>

definition Audio_add :: "Audio \<Rightarrow> Audio \<Rightarrow> pyerr + Audio" where
  "Audio_add self other =
     (if channels other \<noteq> channels self \<or> width other \<noteq> width self \<or> rate other \<noteq> rate self
      then Inl (ValueError ''Could not add incompatible Audio'')
      else Inr (clone self (data self @ data other)))"

text \<open>
  A slice \<^verbatim>\<open>xs[i:j]\<close> of a Python sequence: a missing bound is the end of
  that side, a negative one counts from the end, and both are clamped to the sequence.
\<close>

definition slice_bound :: "int \<Rightarrow> int option \<Rightarrow> int \<Rightarrow> int" where
  "slice_bound n b dflt =
     (case b of None \<Rightarrow> dflt | Some i \<Rightarrow> if i < 0 then max (n + i) 0 else min i n)"

definition py_slice :: "int option \<Rightarrow> int option \<Rightarrow> 'a list \<Rightarrow> 'a list" where
  "py_slice i j xs =
     (let n = int (length xs); lo = slice_bound n i 0; hi = slice_bound n j n
      in take (nat (hi - lo)) (drop (nat lo) xs))"

text \<open>
  \<^verbatim>\<open>__getitem__\<close> on \<^verbatim>\<open>slice(i, j, None)\<close>, the only slices the stream
  transforms take: \<^verbatim>\<open>x and x * framewidth\<close> keeps \<open>None\<close> and \<open>0\<close> as they are.
\<close>

definition scale_bound :: "Audio \<Rightarrow> int option \<Rightarrow> int option" where
  "scale_bound self b =
     (case b of None \<Rightarrow> None | Some i \<Rightarrow> if i = 0 then Some 0 else Some (i * framewidth self))"

definition Audio_getitem :: "Audio \<Rightarrow> int option \<Rightarrow> int option \<Rightarrow> Audio" where
  "Audio_getitem self i j =
     clone self (py_slice (scale_bound self i) (scale_bound self j) (data self))"

section \<open>Real-time pacer (\<^verbatim>\<open>rate_limit\<close>)\<close>

text \<open>
  What a consumer that drains a generator observes: the values it yields and the
  sleeps it awaits, in order, and how it ends: it returns, it raises, or it never
  resumes from a sleep without end.
\<close>

datatype event = Yield Audio | Sleep pyfloat

datatype ending = Returns | Raises pyerr | Blocks

fun emitted :: "event list \<Rightarrow> Audio list" where
  "emitted [] = []"
| "emitted (Yield p # es) = p # emitted es"
| "emitted (Sleep t # es) = emitted es"

text \<open>
  The loop of \<^verbatim>\<open>rate_limit\<close> over the packets still to come. \<open>clock k\<close> is the
  \<open>k\<close>-th reading of \<^verbatim>\<open>time.perf_counter()\<close>, a finite double; \<open>n\<close> counts the
  readings taken, \<open>w\<close> is \<^verbatim>\<open>when_to_wake\<close>, and \<open>packet\<close> is the loop variable,
  \<open>None\<close> while it is unbound. After the loop the variable is read again.
\<close>

fun rate_limit_loop ::
  "(nat \<Rightarrow> rat) \<Rightarrow> nat \<Rightarrow> pyfloat \<Rightarrow> Audio option \<Rightarrow> Audio list \<Rightarrow> event list \<times> ending" where
  "rate_limit_loop clock n w packet [] =
     (case packet of
        None \<Rightarrow> ([], Raises (UnboundLocalError ''packet''))
      | Some p \<Rightarrow>
          (case Audio_bool p of
             Inl e \<Rightarrow> ([], Raises e)
           | Inr b \<Rightarrow> (if b then [Yield p] else [], Returns)))"
| "rate_limit_loop clock n w packet (p # ps) =
     (case duration p of
        Inl e \<Rightarrow> ([Yield p], Raises e)
      | Inr d \<Rightarrow>
          (let w' = float_add w d;
               to_sleep = float_sub w' (Finite (clock n))
           in if to_sleep = PosInf then ([Yield p, Sleep to_sleep], Blocks)
              else let r = rate_limit_loop clock (Suc n) w' (Some p) ps
                   in (Yield p # Sleep to_sleep # fst r, snd r)))"

definition rate_limit :: "(nat \<Rightarrow> rat) \<Rightarrow> Audio list \<Rightarrow> event list \<times> ending" where
  "rate_limit clock audio_iter = rate_limit_loop clock 1 (Finite (clock 0)) None audio_iter"

section \<open>Chunked delivery transform (\<^verbatim>\<open>size_limit\<close>)\<close>

text \<open>
  The inner \<^verbatim>\<open>while len(buf) >= size\<close> loop: the chunks it yields, and the buffer it
  leaves or the exception that ends it. With a chunk size that is not positive the
  loop never ends, which is the value \<open>None\<close>.
\<close>

partial_function (option) size_limit_while ::
  "Audio \<Rightarrow> int \<Rightarrow> (Audio list \<times> (pyerr + Audio)) option" where
  "size_limit_while buf sz =
     (case len buf of
        Inl e \<Rightarrow> Some ([], Inl e)
      | Inr n \<Rightarrow>
          if n \<ge> sz
          then Option.bind (size_limit_while (Audio_getitem buf (Some sz) None) sz)
                 (\<lambda>r. Some (Audio_getitem buf None (Some sz) # fst r, snd r))
          else Some ([], Inr buf))"

fun size_limit_loop ::
  "Audio option \<Rightarrow> int \<Rightarrow> Audio list \<Rightarrow> (Audio list \<times> ending) option" where
  "size_limit_loop buf sz [] =
     (case buf of
        None \<Rightarrow> Some ([], Returns)
      | Some b \<Rightarrow>
          (case Audio_bool b of
             Inl e \<Rightarrow> Some ([], Raises e)
           | Inr t \<Rightarrow> Some (if t then [b] else [], Returns)))"
| "size_limit_loop buf sz (packet # rest) =
     (case (case buf of
              None \<Rightarrow> Inr packet
            | Some b \<Rightarrow>
                (case Audio_bool b of
                   Inl e \<Rightarrow> Inl e
                 | Inr t \<Rightarrow> if t then Audio_add b packet else Inr packet)) of
        Inl e \<Rightarrow> Some ([], Raises e)
      | Inr b' \<Rightarrow>
          (case size_limit_while b' sz of
             None \<Rightarrow> None
           | Some (ys, Inl e) \<Rightarrow> Some (ys, Raises e)
           | Some (ys, Inr b'') \<Rightarrow>
               (case size_limit_loop (Some b'') sz rest of
                  None \<Rightarrow> None
                | Some (zs, en) \<Rightarrow> Some (ys @ zs, en))))"

definition size_limit :: "Audio list \<Rightarrow> int \<Rightarrow> (Audio list \<times> ending) option" where
  "size_limit audio_iter sz = size_limit_loop None sz audio_iter"

text \<open>
  The cutting of a byte sequence into pieces of \<open>n\<close> bytes, against which the
  transform is measured: the full pieces, what is left after them, and the chunk made
  of what is left, if anything.
\<close>

function full_chunks :: "nat \<Rightarrow> 'a list \<Rightarrow> 'a list list" where
  "full_chunks n xs = (if n = 0 \<or> length xs < n then [] else take n xs # full_chunks n (drop n xs))"
  by pat_completeness auto
termination
  by (relation "measure (\<lambda>(n, xs). length xs)") auto

function remainder :: "nat \<Rightarrow> 'a list \<Rightarrow> 'a list" where
  "remainder n xs = (if n = 0 \<or> length xs < n then xs else remainder n (drop n xs))"
  by pat_completeness auto
termination
  by (relation "measure (\<lambda>(n, xs). length xs)") auto

declare full_chunks.simps [simp del] remainder.simps [simp del]

definition flush :: "Audio \<Rightarrow> byte list \<Rightarrow> Audio list" where
  "flush f r = (if r = [] then [] else [clone f r])"

text \<open>The frames of a sequence of buffers: the sum of their lengths in frames.\<close>

definition total_frames :: "Audio list \<Rightarrow> int" where
  "total_frames ps = sum_list (map (\<lambda>p. int (length (data p)) div framewidth p) ps)"

section \<open>Bytes and samples\<close>

text \<open>
  Unsigned and two's-complement integers in little-endian byte order, as
  \<^verbatim>\<open>struct\<close> with \<^verbatim>\<open><\<close> and \<^verbatim>\<open>audioop\<close> on a little-endian host lay them out.
\<close>

fun le_unsigned :: "byte list \<Rightarrow> int" where
  "le_unsigned [] = 0"
| "le_unsigned (b # bs) = uint b + 256 * le_unsigned bs"

fun le_bytes :: "nat \<Rightarrow> int \<Rightarrow> byte list" where
  "le_bytes 0 v = []"
| "le_bytes (Suc k) v = word_of_int v # le_bytes k (v div 256)"

section \<open>Sample-wise mix (\<^verbatim>\<open>Audio.combine\<close>)\<close>

text \<open>
  \<^verbatim>\<open>audioop.add(fragment1, fragment2, width)\<close> of the standard library: the width
  is converted to a C \<^verbatim>\<open>int\<close> and must be 1 to 4, the first fragment must hold whole
  samples, both must have the same length; the samples are added pairwise and clipped
  to the range of the width.
\<close>

definition le_signed :: "byte list \<Rightarrow> int" where
  "le_signed bs =
     (let v = le_unsigned bs
      in if v \<ge> 2 ^ (8 * length bs - 1) then v - 2 ^ (8 * length bs) else v)"

definition clip :: "nat \<Rightarrow> int \<Rightarrow> int" where
  "clip w v = max (- (2 ^ (8 * w - 1))) (min (2 ^ (8 * w - 1) - 1) v)"

definition audioop_add :: "byte list \<Rightarrow> byte list \<Rightarrow> int \<Rightarrow> pyerr + byte list" where
  "audioop_add fragment1 fragment2 w =
     (if w < - (2 ^ 31) \<or> w \<ge> 2 ^ 31 then Inl OverflowError
      else if w < 1 \<or> w > 4 then Inl AudioopError
      else if int (length fragment1) mod w \<noteq> 0 then Inl AudioopError
      else if length fragment1 \<noteq> length fragment2 then Inl AudioopError
      else Inr (concat (map (\<lambda>(s1, s2). le_bytes (nat w) (clip (nat w) (le_signed s1 + le_signed s2)))
                  (zip (full_chunks (nat w) fragment1) (full_chunks (nat w) fragment2)))))"

definition combine :: "Audio \<Rightarrow> Audio \<Rightarrow> pyerr + Audio" where
  "combine self other =
     (case audioop_add (data self) (data other) (width self) of
        Inl e \<Rightarrow> Inl e
      | Inr d \<Rightarrow> Inr (clone self d))"


section \<open>WAV container (\<^verbatim>\<open>to_wav\<close>, \<^verbatim>\<open>load\<close>, \<^verbatim>\<open>from_wav\<close>)\<close>

text \<open>
  The two kinds of Python object the WAV functions pass around: a \<^verbatim>\<open>bytes\<close> value,
  and an \<^verbatim>\<open>io.BytesIO\<close> stream with its content and read position.

  \<^verbatim>\<open>to_wav\<close> drives \<^verbatim>\<open>wave.Wave_write\<close> of the standard library: the setters refuse
  a channel count below 1, a sample width outside 1 to 4 and a rate that is not
  positive; \<^verbatim>\<open>writeframes\<close> writes the 44-byte header (\<^verbatim>\<open>struct.pack\<close> raises when a
  field does not fit its 16 or 32 bits) for the whole frames of the data, then the
  data, and patches the two length fields when the data is not whole frames.

  \<^verbatim>\<open>load\<close> drives \<^verbatim>\<open>wave.Wave_read\<close>: it checks the RIFF and WAVE tags, walks the
  chunks inside the RIFF chunk, decodes the \<^verbatim>\<open>fmt\<close> chunk, skips unknown chunks and
  stops at the \<^verbatim>\<open>data\<close> chunk, all of which \<^verbatim>\<open>readframes(2 ** 32)\<close> then returns.
\<close>

datatype pyobj = Bytes "byte list" | BytesIO "byte list" nat

definition pack_uint :: "nat \<Rightarrow> int \<Rightarrow> pyerr + byte list" where
  "pack_uint k v = (if 0 \<le> v \<and> v < 256 ^ k then Inr (le_bytes k v) else Inl StructError)"

fun pack_fields :: "(nat \<times> int) list \<Rightarrow> pyerr + byte list" where
  "pack_fields [] = Inr []"
| "pack_fields ((k, v) # fs) =
     (case pack_uint k v of
        Inl e \<Rightarrow> Inl e
      | Inr b \<Rightarrow> (case pack_fields fs of Inl e \<Rightarrow> Inl e | Inr bs \<Rightarrow> Inr (b @ bs)))"

definition tag_RIFF :: "byte list" where "tag_RIFF = [0x52, 0x49, 0x46, 0x46]"
definition tag_WAVE :: "byte list" where "tag_WAVE = [0x57, 0x41, 0x56, 0x45]"
definition tag_fmt :: "byte list" where "tag_fmt = [0x66, 0x6D, 0x74, 0x20]"
definition tag_data :: "byte list" where "tag_data = [0x64, 0x61, 0x74, 0x61]"

definition wave_header :: "int \<Rightarrow> int \<Rightarrow> int \<Rightarrow> int \<Rightarrow> pyerr + byte list" where
  "wave_header nchannels sampwidth framerate datalength =
     (case pack_fields [(4, 36 + datalength)] of
        Inl e \<Rightarrow> Inl e
      | Inr form_length \<Rightarrow>
     (case pack_fields [(4, 16), (2, 1), (2, nchannels), (4, framerate),
                        (4, nchannels * framerate * sampwidth),
                        (2, nchannels * sampwidth), (2, sampwidth * 8)] of
        Inl e \<Rightarrow> Inl e
      | Inr fmt \<Rightarrow>
     (case pack_fields [(4, datalength)] of
        Inl e \<Rightarrow> Inl e
      | Inr data_length \<Rightarrow>
          Inr (tag_RIFF @ form_length @ tag_WAVE @ tag_fmt @ fmt @ tag_data @ data_length))))"

definition to_wav :: "Audio \<Rightarrow> pyerr + pyobj" where
  "to_wav self =
     (if channels self < 1 then Inl WaveError
      else if width self < 1 \<or> width self > 4 then Inl WaveError
      else if rate self \<le> 0 then Inl WaveError
      else let n = int (length (data self));
               initlength = n div (channels self * width self) * channels self * width self
           in case wave_header (channels self) (width self) (rate self) initlength of
                Inl e \<Rightarrow> Inl e
              | Inr h0 \<Rightarrow>
                  if initlength = n then Inr (BytesIO (h0 @ data self) 0)
                  else (case wave_header (channels self) (width self) (rate self) n of
                          Inl e \<Rightarrow> Inl e
                        | Inr h \<Rightarrow> Inr (BytesIO (h @ data self) 0)))"

definition read_fmt_chunk :: "byte list \<Rightarrow> pyerr + int \<times> int \<times> int" where
  "read_fmt_chunk c =
     (if length c < 14 then Inl EOFError
      else if le_unsigned (take 2 c) \<noteq> 1 then Inl WaveError
      else if length c < 16 then Inl EOFError
      else let sampwidth = (le_unsigned (take 2 (drop 14 c)) + 7) div 8;
               nchannels = le_unsigned (take 2 (drop 2 c));
               framerate = le_unsigned (take 4 (drop 4 c))
           in if sampwidth = 0 then Inl WaveError
              else if nchannels = 0 then Inl WaveError
              else Inr (nchannels, sampwidth, framerate))"

function wave_chunks ::
  "(int \<times> int \<times> int) option \<Rightarrow> int \<Rightarrow> byte list \<Rightarrow> pyerr + Audio" where
  "wave_chunks fmt remaining bs =
     (let hdr = take (nat (min 8 remaining)) bs
      in if length hdr < 8 then Inl WaveError
         else
           let name = take 4 hdr;
               chunksize = le_unsigned (drop 4 hdr);
               body = take (nat (min chunksize (remaining - 8))) (drop 8 bs);
               skip = chunksize + chunksize mod 2
           in if name = tag_data then
                (case fmt of
                   None \<Rightarrow> Inl WaveError
                 | Some (nchannels, sampwidth, framerate) \<Rightarrow>
                     Inr \<lparr>channels = nchannels, width = sampwidth, rate = framerate, data = body\<rparr>)
              else
                (case (if name = tag_fmt then map_sum id Some (read_fmt_chunk body) else Inr fmt) of
                   Inl e \<Rightarrow> Inl e
                 | Inr fmt' \<Rightarrow>
                     if skip > remaining - 8 then Inl (RuntimeError [])
                     else wave_chunks fmt' (remaining - 8 - skip) (drop (nat skip) (drop 8 bs))))"
  by pat_completeness auto
termination
  by (relation "measure (\<lambda>(fmt, remaining, bs). length bs)") (auto split: if_splits)

declare wave_chunks.simps [simp del]

definition wave_read :: "byte list \<Rightarrow> pyerr + Audio" where
  "wave_read f =
     (if length f < 8 then Inl EOFError
      else if take 4 f \<noteq> tag_RIFF then Inl WaveError
      else let riff_size = le_unsigned (take 4 (drop 4 f))
           in if take (nat (min 4 riff_size)) (drop 8 f) \<noteq> tag_WAVE then Inl WaveError
              else wave_chunks None (riff_size - 4) (drop 12 f))"

definition load :: "pyobj \<Rightarrow> pyerr + Audio" where
  "load fp =
     (case fp of
        Bytes b \<Rightarrow> Inl (AttributeError ''bytes object has no attribute read'')
      | BytesIO content pos \<Rightarrow> wave_read (drop pos content))"

definition from_wav :: "pyobj \<Rightarrow> pyerr + Audio" where
  "from_wav wav =
     (case wav of
        Bytes b \<Rightarrow> load (BytesIO b 0)
      | BytesIO content pos \<Rightarrow>
          Inl (TypeError ''a bytes-like object is required, not _io.BytesIO''))"


text \<open>
  The buffers the WAV container can hold: the setters accept the format, and every
  header field fits.
\<close>

definition wav_valid :: "Audio \<Rightarrow> bool" where
  "wav_valid a =
     (1 \<le> channels a \<and> 1 \<le> width a \<and> width a \<le> 4 \<and> 1 \<le> rate a
      \<and> channels a * width a < 2 ^ 16
      \<and> channels a * rate a * width a < 2 ^ 32
      \<and> 36 + int (length (data a)) < 2 ^ 32)"

text \<open>The header that \<^verbatim>\<open>to_wav\<close> writes for such a buffer, and the body of its \<^verbatim>\<open>fmt\<close> chunk.\<close>

definition header_bytes :: "int \<Rightarrow> int \<Rightarrow> int \<Rightarrow> int \<Rightarrow> byte list" where
  "header_bytes nchannels sampwidth framerate datalength =
     tag_RIFF @ le_bytes 4 (36 + datalength) @ tag_WAVE @ tag_fmt
     @ (le_bytes 4 16 @ le_bytes 2 1 @ le_bytes 2 nchannels @ le_bytes 4 framerate
        @ le_bytes 4 (nchannels * framerate * sampwidth)
        @ le_bytes 2 (nchannels * sampwidth) @ le_bytes 2 (sampwidth * 8))
     @ tag_data @ le_bytes 4 datalength"

definition fmt_body :: "int \<Rightarrow> int \<Rightarrow> int \<Rightarrow> byte list" where
  "fmt_body nchannels sampwidth framerate =
     le_bytes 2 1 @ le_bytes 2 nchannels @ le_bytes 4 framerate
     @ le_bytes 4 (nchannels * framerate * sampwidth)
     @ le_bytes 2 (nchannels * sampwidth) @ le_bytes 2 (sampwidth * 8)"

section \<open>Properties of the supervised background task\<close>

text \<open>
  C10: \<^verbatim>\<open>stop()\<close> on an idle supervised task (never started, or already stopped)
  raises \<open>AttributeError\<close>, because the slot holds \<open>None\<close> when \<^verbatim>\<open>done()\<close> is
  called on it; so a second \<^verbatim>\<open>stop()\<close> always fails, whatever the first one did.
\<close>

theorem stop_idle_AttributeError:
  "fst (stop (BackgroundTask_init :: 'v BackgroundTask))
     = Inl (AttributeError ''NoneType object has no attribute done'')
   \<and> fst (stop (snd (stop (self :: 'v BackgroundTask))))
     = Inl (AttributeError ''NoneType object has no attribute done'')
   \<and> bt_task (snd (stop self)) = None"
  by (auto simp: stop_def BackgroundTask_init_def Let_def split: option.splits task.splits sum.splits)

text \<open>
  What \<^verbatim>\<open>start\<close> and \<^verbatim>\<open>stop\<close> do get right: a second \<^verbatim>\<open>start\<close> is refused and
  leaves the held task alone; \<^verbatim>\<open>stop\<close> never lets the cancellation signal of an
  unfinished task through, re-raises the failure of a finished one, and always empties
  the slot.
\<close>

lemma start_while_held:
  "bt_task self = Some t \<Longrightarrow>
     start self c = (Inl (RuntimeError ''{self!r} is already running''), self)"
  by (simp add: start_def)

lemma stop_unfinished_swallows_cancellation:
  "bt_task self = Some (Fresh c) \<or> bt_task self = Some (Pending c) \<Longrightarrow>
     fst (stop self) \<noteq> Inl CancelledError"
  by (cases "on_cancel c" rule: suppress_cancelled.cases)
     (auto simp: stop_def Let_def split: sum.splits)

lemma stop_unfinished_cancelled:
  "bt_task self = Some (Fresh c) \<or> (bt_task self = Some (Pending c) \<and> on_cancel c = Inl CancelledError)
     \<Longrightarrow> fst (stop self) = Inr None"
  by (auto simp: stop_def Let_def)

lemma stop_finished_failure:
  "bt_task self = Some (Done (Inl e)) \<Longrightarrow> fst (stop self) = Inl e"
  by (simp add: stop_def)

lemma stop_empties_slot: "bt_task (snd (stop self)) = None"
  by (auto simp: stop_def Let_def split: option.splits task.splits sum.splits)

text \<open>
  C6, at the input where the code departs from it: an operation that has finished with
  the value 42 is stopped, and \<^verbatim>\<open>stop()\<close> returns Python's \<open>None\<close>, not 42: the task
  runs \<^verbatim>\<open>wrap(coro)\<close>, and \<^verbatim>\<open>wrap\<close> does not return what the coroutine returned.
\<close>

theorem stop_finished_returns_None:
  "fst (stop (finish (snd (start BackgroundTask_init
      \<lparr>normally = Inr (42::nat), on_cancel = Inl CancelledError\<rparr>)))) = Inr None"
  by (simp add: stop_def finish_def start_def BackgroundTask_init_def create_task_def wrap_def)

section \<open>Properties of the cancellable stream wrapper\<close>

text \<open>
  C4, at the input where the code departs from it: \<^verbatim>\<open>aclose()\<close> on a wrapper on which
  \<^verbatim>\<open>__anext__\<close> was never called reads the attribute \<^verbatim>\<open>self.task\<close>, which only
  \<^verbatim>\<open>__anext__\<close> assigns, and raises \<open>AttributeError\<close>; the wrapper is left open.
\<close>

theorem aclose_before_first_advance:
  "aclose (CancellableAsyncGenerator_init g)
     = (Inl (AttributeError ''CancellableAsyncGenerator object has no attribute task''),
        CancellableAsyncGenerator_init g)"
  by (simp add: aclose_def CancellableAsyncGenerator_init_def)

text \<open>
  The rest of the close protocol holds once an advance has been made: a second close
  is a no-op, an advance after close ends the sequence, and the advance that was
  pending when the wrapper was closed ends the sequence as well.
\<close>

lemma aclose_twice:
  "cag_task self = Holds t \<Longrightarrow> aclose (snd (aclose self)) = (Inr (), snd (aclose self))"
  by (auto simp: aclose_def Let_def split: option.splits)

lemma anext_after_aclose:
  "cag_task self = Holds t \<Longrightarrow>
     anext_begin (snd (aclose self)) = (Inl StopAsyncIteration, snd (aclose self))"
  by (auto simp: aclose_def anext_begin_def Let_def split: option.splits)

lemma aclose_cancels_pending_advance:
  assumes "cag_gen self = Some g" and "on_cancel (fst (gen_anext g)) = Inl CancelledError"
  shows "fst (aclose (snd (anext_begin self))) = Inr ()"
    and "fst (anext_resume (snd (aclose (snd (anext_begin self)))) (Inl CancelledError))
           = Inl StopAsyncIteration"
  using assms by (simp_all add: aclose_def anext_begin_def anext_resume_def create_task_def)

section \<open>Properties of the timed-next wrapper\<close>

lemma yielding_simps: "yielding [] = []" "yielding (x # xs) = item_coro x # yielding xs"
  by (simp_all add: yielding_def item_coro_def)

lemma timed_anext_False:
  assumes "ati_inv s xs"
  shows "\<exists>xs'. ati_inv (snd (timed_anext False s)) xs' \<and>
           in_flight (ati_task (snd (timed_anext False s))) @ xs' = in_flight (ati_task s) @ xs"
proof (cases "ati_task s")
  case None
  show ?thesis
  proof (cases xs)
    case Nil
    with None assms show ?thesis
      by (intro exI[of _ "[]"])
         (simp add: ati_inv_def timed_anext_def awaited_def Let_def yielding_simps
            create_task_def stop_coro_def)
  next
    case (Cons y ys)
    with None assms show ?thesis
      by (intro exI[of _ ys])
         (auto simp add: ati_inv_def timed_anext_def awaited_def Let_def yielding_simps
            create_task_def item_coro_def split: list.splits)
  qed
next
  case (Some t)
  with assms show ?thesis
    by (intro exI[of _ xs])
       (auto simp add: ati_inv_def timed_anext_def awaited_def Let_def split: list.splits)
qed

lemma timed_anext_True:
  assumes "ati_inv s xs"
  shows "\<exists>xs'. ati_inv (snd (timed_anext True s)) xs' \<and>
     (case in_flight (ati_task s) @ xs of
        [] \<Rightarrow> fst (timed_anext True s) = Inl StopAsyncIteration
              \<and> in_flight (ati_task (snd (timed_anext True s))) @ xs' = []
      | y # ys \<Rightarrow> fst (timed_anext True s) = Inr (Item y)
              \<and> in_flight (ati_task (snd (timed_anext True s))) @ xs' = ys)"
proof (cases "ati_task s")
  case None
  show ?thesis
  proof (cases xs)
    case Nil
    with None assms show ?thesis
      by (intro exI[of _ "[]"])
         (simp add: ati_inv_def timed_anext_def awaited_def Let_def yielding_simps
            create_task_def stop_coro_def)
  next
    case (Cons y ys)
    with None assms show ?thesis
      by (intro exI[of _ ys])
         (auto simp add: ati_inv_def timed_anext_def awaited_def Let_def yielding_simps
            create_task_def item_coro_def split: list.splits)
  qed
next
  case (Some t)
  with assms show ?thesis
    by (intro exI[of _ xs])
       (auto simp add: ati_inv_def timed_anext_def awaited_def Let_def item_coro_def
          stop_coro_def split: list.splits)
qed

lemma advances_items:
  assumes "ati_inv s xs"
  shows "items (fst (advances bs s))
           = take (length (filter id bs)) (in_flight (ati_task s) @ xs)"
  using assms
proof (induction bs arbitrary: s xs)
  case Nil
  then show ?case by simp
next
  case (Cons b bs)
  show ?case
  proof (cases b)
    case True
    from timed_anext_True[OF Cons.prems] obtain xs' where
      inv: "ati_inv (snd (timed_anext True s)) xs'" and
      st: "(case in_flight (ati_task s) @ xs of
        [] \<Rightarrow> fst (timed_anext True s) = Inl StopAsyncIteration
              \<and> in_flight (ati_task (snd (timed_anext True s))) @ xs' = []
      | y # ys \<Rightarrow> fst (timed_anext True s) = Inr (Item y)
              \<and> in_flight (ati_task (snd (timed_anext True s))) @ xs' = ys)"
      by blast
    from Cons.IH[OF inv] st True show ?thesis
      by (cases "in_flight (ati_task s) @ xs") (simp_all add: Let_def)
  next
    case False
    from timed_anext_False[OF Cons.prems] obtain xs' where
      inv: "ati_inv (snd (timed_anext False s)) xs'" and
      st: "in_flight (ati_task (snd (timed_anext False s))) @ xs' = in_flight (ati_task s) @ xs"
      by blast
    have r: "fst (timed_anext False s) = Inr Sentinel"
      by (simp add: timed_anext_def Let_def)
    from Cons.IH[OF inv] st r False show ?thesis
      by (simp add: Let_def)
  qed
qed

text \<open>
  C5: a call whose fetch is not done in time returns the sentinel and stores the very
  task it awaited, untouched; the next call awaits that stored task and takes nothing
  new from the underlying iterator. Hence, over any run of calls on a sequence \<open>xs\<close>,
  whatever calls time out, the elements handed back are the first elements of \<open>xs\<close> in
  order, one for each call that did not time out (as long as there are any): none
  twice, none skipped.
\<close>

theorem timed_anext_keeps_fetch:
  "fst (timed_anext False s) = Inr Sentinel
   \<and> ati_task (snd (timed_anext False s)) = Some (fst (awaited s))
   \<and> awaited (snd (timed_anext False s)) = awaited s
   \<and> items (fst (advances bs (AsyncTimedIterator_init (yielding xs))))
       = take (length (filter id bs)) xs"
proof -
  have "ati_inv (AsyncTimedIterator_init (yielding xs)) xs"
    by (simp add: ati_inv_def AsyncTimedIterator_init_def)
  from advances_items[OF this, of bs]
  have "items (fst (advances bs (AsyncTimedIterator_init (yielding xs))))
          = take (length (filter id bs)) xs"
    by (simp add: AsyncTimedIterator_init_def)
  then show ?thesis
    by (simp add: timed_anext_def awaited_def Let_def)
qed

section \<open>Properties of the audio buffer\<close>

lemma clone_simps [simp]:
  "channels (clone a d) = channels a" "width (clone a d) = width a"
  "rate (clone a d) = rate a" "data (clone a d) = d" "framewidth (clone a d) = framewidth a"
  by (simp_all add: clone_def framewidth_def)

lemma len_valid:
  assumes "0 < framewidth a"
  shows "len a = Inr (int (length (data a)) div framewidth a)"
proof -
  have "0 \<le> int (length (data a)) div framewidth a"
    using assms by (simp add: pos_imp_zdiv_nonneg_iff)
  then show ?thesis using assms by (simp add: len_def Let_def not_less)
qed

lemma len_concat:
  assumes "0 < framewidth a" "framewidth a dvd int (length (data a))" "framewidth a dvd int (length xs)"
  shows "len (clone a (data a @ xs)) = Inr (int (length (data a)) div framewidth a + int (length xs) div framewidth a)"
  using assms len_valid[of "clone a (data a @ xs)"] by (simp add: div_add)

text \<open>Doubles used below, each rounded by \<open>round_double\<close> itself.\<close>

lemma rd_1_10: "round_double (1 / 10) = 3602879701896397 / 36028797018963968"
  by code_simp
lemma rd_1_5: "round_double (1 / 5) = 3602879701896397 / 18014398509481984"
  by code_simp
lemma rd_3_10: "round_double (3 / 10) = 5404319552844595 / 18014398509481984"
  by code_simp
lemma rd_sum: "round_double (10808639105689191 / 36028797018963968) = 1351079888211149 / 4503599627370496"
  by code_simp

text \<open>
  C7, as the code has it: \<^verbatim>\<open>__add__\<close> raises the format error exactly when channels,
  sample width or rate differ, and raises nothing else; otherwise the result has the
  format of the operands and the data of the first followed by the data of the second.
  For whole frames (positive frame width dividing both data lengths) the frame count
  of the result is the sum of the two frame counts, and its duration is that sum
  divided by the rate, rounded once to a double.
\<close>

theorem Audio_add_concat:
  "((Audio_add a b = Inl (ValueError ''Could not add incompatible Audio''))
      = (channels b \<noteq> channels a \<or> width b \<noteq> width a \<or> rate b \<noteq> rate a))
   \<and> (channels b = channels a \<and> width b = width a \<and> rate b = rate a \<longrightarrow>
        Audio_add a b = Inr (clone a (data a @ data b))
        \<and> (0 < framewidth a \<and> framewidth a dvd int (length (data a))
             \<and> framewidth b dvd int (length (data b)) \<longrightarrow>
            len a = Inr (int (length (data a)) div framewidth a)
            \<and> len b = Inr (int (length (data b)) div framewidth a)
            \<and> len (clone a (data a @ data b))
                = Inr (int (length (data a)) div framewidth a + int (length (data b)) div framewidth a)
            \<and> duration (clone a (data a @ data b))
                = int_truediv (int (length (data a)) div framewidth a
                               + int (length (data b)) div framewidth a) (rate a)))"
proof -
  have iff: "(Audio_add a b = Inl (ValueError ''Could not add incompatible Audio''))
      = (channels b \<noteq> channels a \<or> width b \<noteq> width a \<or> rate b \<noteq> rate a)"
    by (simp add: Audio_add_def)
  have rest: "Audio_add a b = Inr (clone a (data a @ data b))
        \<and> (0 < framewidth a \<and> framewidth a dvd int (length (data a))
             \<and> framewidth b dvd int (length (data b)) \<longrightarrow>
            len a = Inr (int (length (data a)) div framewidth a)
            \<and> len b = Inr (int (length (data b)) div framewidth a)
            \<and> len (clone a (data a @ data b))
                = Inr (int (length (data a)) div framewidth a + int (length (data b)) div framewidth a)
            \<and> duration (clone a (data a @ data b))
                = int_truediv (int (length (data a)) div framewidth a
                               + int (length (data b)) div framewidth a) (rate a))"
    if same: "channels b = channels a" "width b = width a" "rate b = rate a"
  proof -
    have fw: "framewidth b = framewidth a" using same by (simp add: framewidth_def)
    have 1: "Audio_add a b = Inr (clone a (data a @ data b))"
      using same by (simp add: Audio_add_def)
    have 2: "len a = Inr (int (length (data a)) div framewidth a)"
      "len b = Inr (int (length (data b)) div framewidth a)"
      "len (clone a (data a @ data b))
                = Inr (int (length (data a)) div framewidth a + int (length (data b)) div framewidth a)"
      "duration (clone a (data a @ data b))
                = int_truediv (int (length (data a)) div framewidth a
                               + int (length (data b)) div framewidth a) (rate a)"
      if "0 < framewidth a" "framewidth a dvd int (length (data a))" "framewidth b dvd int (length (data b))"
    proof -
      show "len a = Inr (int (length (data a)) div framewidth a)" using that len_valid by simp
      show "len b = Inr (int (length (data b)) div framewidth a)"
        using that len_valid[of b] fw by simp
      show l: "len (clone a (data a @ data b))
                = Inr (int (length (data a)) div framewidth a + int (length (data b)) div framewidth a)"
        using that fw len_concat[of a "data b"] by simp
      show "duration (clone a (data a @ data b))
                = int_truediv (int (length (data a)) div framewidth a
                               + int (length (data b)) div framewidth a) (rate a)"
        unfolding duration_def l by (simp add: clone_def)
    qed
    from 1 2 show ?thesis by blast
  qed
  from iff rest show ?thesis by blast
qed

theorem Audio_add_concat_witness:
  "Audio_add \<lparr>channels = 2, width = 2, rate = 8000, data = [1, 2, 3, 4]\<rparr>
             \<lparr>channels = 2, width = 2, rate = 8000, data = [5, 6, 7, 8, 9, 10, 11, 12]\<rparr>
     = Inr \<lparr>channels = 2, width = 2, rate = 8000,
            data = [1, 2, 3, 4, 5, 6, 7, 8, 9, 10, 11, 12]\<rparr>
   \<and> len \<lparr>channels = 2, width = 2, rate = 8000,
            data = [1, 2, 3, 4, 5, 6, 7, 8, 9, 10, 11, 12]\<rparr> = Inr 3
   \<and> duration \<lparr>channels = 2, width = 2, rate = 8000,
            data = [1, 2, 3, 4, 5, 6, 7, 8, 9, 10, 11, 12]\<rparr> = int_truediv 3 8000"
  using Audio_add_concat
    [of "\<lparr>channels = 2, width = 2, rate = 8000, data = [1, 2, 3, 4]\<rparr>"
        "\<lparr>channels = 2, width = 2, rate = 8000, data = [5, 6, 7, 8, 9, 10, 11, 12]\<rparr>"]
  by (simp add: clone_def framewidth_def)

text \<open>
  The duration of a concatenation is not always the floating-point sum of the two
  durations: one frame followed by two frames at 10 Hz lasts \<^verbatim>\<open>3 / 10\<close>, the double
  0.3, while \<^verbatim>\<open>1 / 10 + 2 / 10\<close> is the next double, 0.30000000000000004.
\<close>

theorem duration_sum_counterexample:
  "Audio_add \<lparr>channels = 1, width = 1, rate = 10, data = [0]\<rparr>
             \<lparr>channels = 1, width = 1, rate = 10, data = [0, 0]\<rparr>
     = Inr \<lparr>channels = 1, width = 1, rate = 10, data = [0, 0, 0]\<rparr>
   \<and> duration \<lparr>channels = 1, width = 1, rate = 10, data = [0]\<rparr>
     = Inr (Finite (3602879701896397 / 36028797018963968))
   \<and> duration \<lparr>channels = 1, width = 1, rate = 10, data = [0, 0]\<rparr>
     = Inr (Finite (3602879701896397 / 18014398509481984))
   \<and> duration \<lparr>channels = 1, width = 1, rate = 10, data = [0, 0, 0]\<rparr>
     = Inr (Finite (5404319552844595 / 18014398509481984))
   \<and> float_add (Finite (3602879701896397 / 36028797018963968))
                (Finite (3602879701896397 / 18014398509481984))
     = Finite (5404319552844596 / 18014398509481984)"
  by (simp add: Audio_add_def clone_def duration_def len_def framewidth_def int_truediv_def
        float_of_rat_def rd_1_10 rd_1_5 rd_3_10 rd_sum)


section \<open>Properties of the real-time pacer\<close>

text \<open>
  Whenever the pacer runs to its end, it has yielded every packet of the input once, in
  order, and then the last packet once more if that packet holds at least one frame.
\<close>

lemma rate_limit_loop_emitted:
  assumes "snd (rate_limit_loop clock n w packet ps) = Returns"
  shows "emitted (fst (rate_limit_loop clock n w packet ps))
     = ps @ (case (if ps = [] then packet else Some (last ps)) of
               None \<Rightarrow> []
             | Some p \<Rightarrow> if Audio_bool p = Inr True then [p] else [])"
  using assms
proof (induction ps arbitrary: n w packet)
  case Nil
  then show ?case by (auto split: option.splits sum.splits if_splits)
next
  case (Cons p ps)
  from Cons.prems obtain d where d: "duration p = Inr d"
    by (cases "duration p") auto
  let ?w = "float_add w d"
  from Cons.prems d have ns: "float_sub ?w (Finite (clock n)) \<noteq> PosInf"
    by (auto simp: Let_def split: if_splits)
  from Cons.prems d ns have "snd (rate_limit_loop clock (Suc n) ?w (Some p) ps) = Returns"
    by (simp add: Let_def)
  from Cons.IH[OF this] d ns show ?case
    by (simp add: Let_def)
qed

lemma rate_limit_emitted:
  assumes "snd (rate_limit clock ps) = Returns"
  shows "emitted (fst (rate_limit clock ps))
     = ps @ (if Audio_bool (last ps) = Inr True then [last ps] else [])"
proof -
  from assms have "ps \<noteq> []" by (auto simp: rate_limit_def)
  with rate_limit_loop_emitted[of clock 1 "Finite (clock 0)" None ps] assms
  show ?thesis by (simp add: rate_limit_def)
qed

lemma rd_1_4000: "round_double (1 / 4000) = 1152921504606847 / 4611686018427387904"
  by code_simp

lemma rd_1_4000_again:
  "round_double (1152921504606847 / 4611686018427387904)
     = 1152921504606847 / 4611686018427387904"
  by code_simp

lemma duration_two_frames:
  "duration \<lparr>channels = 1, width = 1, rate = 8000, data = [1, 2]\<rparr>
     = Inr (Finite (1152921504606847 / 4611686018427387904))"
  by (simp add: duration_def len_def framewidth_def int_truediv_def float_of_rat_def rd_1_4000)

text \<open>
  C1, at an input where the code departs from it: on a sequence of one non-empty
  packet (two frames at 8000 Hz, with a clock that stands still) the pacer yields the
  packet, sleeps, and after the loop yields the same packet a second time.
\<close>

theorem rate_limit_emits_last_twice:
  "rate_limit (\<lambda>_. 0) [\<lparr>channels = 1, width = 1, rate = 8000, data = [1, 2]\<rparr>]
   = ([Yield \<lparr>channels = 1, width = 1, rate = 8000, data = [1, 2]\<rparr>,
       Sleep (Finite (1152921504606847 / 4611686018427387904)),
       Yield \<lparr>channels = 1, width = 1, rate = 8000, data = [1, 2]\<rparr>], Returns)
   \<and> emitted (fst (rate_limit (\<lambda>_. 0)
         [\<lparr>channels = 1, width = 1, rate = 8000, data = [1, 2]\<rparr>]))
       = [\<lparr>channels = 1, width = 1, rate = 8000, data = [1, 2]\<rparr>,
          \<lparr>channels = 1, width = 1, rate = 8000, data = [1, 2]\<rparr>]"
  by (simp add: rate_limit_def duration_two_frames Audio_bool_def len_def framewidth_def
        float_sub_def float_of_rat_def rd_1_4000_again Let_def)

text \<open>
  C9: on an empty input sequence the pacer yields nothing and raises: the statement
  after the loop reads the loop variable \<^verbatim>\<open>packet\<close>, which was never bound, and
  Python raises \<open>UnboundLocalError\<close>, a \<open>NameError\<close>.
\<close>

theorem rate_limit_empty_NameError:
  "rate_limit clock [] = ([], Raises (UnboundLocalError ''packet''))
   \<and> isinstance_NameError (UnboundLocalError ''packet'')"
  by (simp add: rate_limit_def isinstance_NameError_def)

section \<open>Properties of the chunked delivery transform\<close>

lemma full_chunks_append:
  "full_chunks n (xs @ ys) = full_chunks n xs @ full_chunks n (remainder n xs @ ys)"
proof (induction n xs rule: full_chunks.induct)
  case (1 n xs)
  show ?case
  proof (cases "n = 0 \<or> length xs < n")
    case True
    then show ?thesis
      by (subst (2) full_chunks.simps, subst remainder.simps) auto
  next
    case False
    then have "full_chunks n (xs @ ys) = take n xs # full_chunks n (drop n xs @ ys)"
      by (subst full_chunks.simps) auto
    also have "\<dots> = take n xs # (full_chunks n (drop n xs) @ full_chunks n (remainder n (drop n xs) @ ys))"
      using 1 False by simp
    also have "\<dots> = full_chunks n xs @ full_chunks n (remainder n xs @ ys)"
      using False by (subst (3) full_chunks.simps, subst (2) remainder.simps) auto
    finally show ?thesis .
  qed
qed

lemma remainder_append:
  "remainder n (xs @ ys) = remainder n (remainder n xs @ ys)"
proof (induction n xs rule: remainder.induct)
  case (1 n xs)
  show ?case
  proof (cases "n = 0 \<or> length xs < n")
    case True
    then show ?thesis by (subst (3) remainder.simps) auto
  next
    case False
    then have "remainder n (xs @ ys) = remainder n (drop n xs @ ys)"
      by (subst remainder.simps) auto
    also have "\<dots> = remainder n (remainder n (drop n xs) @ ys)"
      using 1 False by simp
    also have "\<dots> = remainder n (remainder n xs @ ys)"
      using False by (subst (3) remainder.simps) auto
    finally show ?thesis .
  qed
qed

lemma concat_full_chunks: "concat (full_chunks n xs) @ remainder n xs = xs"
proof (induction n xs rule: full_chunks.induct)
  case (1 n xs)
  show ?case
  proof (cases "n = 0 \<or> length xs < n")
    case True
    then show ?thesis by (subst full_chunks.simps, subst remainder.simps) auto
  next
    case False
    with 1 show ?thesis by (subst full_chunks.simps, subst remainder.simps) auto
  qed
qed

lemma length_remainder: "0 < n \<Longrightarrow> length (remainder n xs) = length xs mod n"
proof (induction n xs rule: remainder.induct)
  case (1 n xs)
  show ?case
  proof (cases "length xs < n")
    case True
    then show ?thesis by (subst remainder.simps) auto
  next
    case False
    with 1 show ?thesis by (subst remainder.simps) (auto simp: le_mod_geq)
  qed
qed

lemma length_full_chunks: "0 < n \<Longrightarrow> length (full_chunks n xs) = length xs div n"
proof (induction n xs rule: full_chunks.induct)
  case (1 n xs)
  show ?case
  proof (cases "length xs < n")
    case True
    then show ?thesis by (subst full_chunks.simps) auto
  next
    case False
    with 1 show ?thesis by (subst full_chunks.simps) (auto simp: le_div_geq)
  qed
qed

lemma set_full_chunks: "c \<in> set (full_chunks n xs) \<Longrightarrow> length c = n"
proof (induction n xs rule: full_chunks.induct)
  case (1 n xs)
  show ?case
  proof (cases "n = 0 \<or> length xs < n")
    case True
    with 1(2) show ?thesis by (subst (asm) full_chunks.simps) auto
  next
    case False
    with 1 show ?thesis by (subst (asm) (2) full_chunks.simps) auto
  qed
qed


lemma clone_clone [simp]: "clone (clone a d) d' = clone a d'"
  by (simp add: clone_def)

lemma py_slice_take: "0 \<le> m \<Longrightarrow> py_slice None (Some m) xs = take (nat m) xs"
  by (auto simp: py_slice_def slice_bound_def Let_def min_def)

lemma py_slice_drop: "0 \<le> m \<Longrightarrow> py_slice (Some m) None xs = drop (nat m) xs"
  by (auto simp: py_slice_def slice_bound_def Let_def min_def)

lemma getitem_head:
  assumes "0 < sz" "0 < framewidth b"
  shows "Audio_getitem b None (Some sz) = clone b (take (nat (sz * framewidth b)) (data b))"
proof -
  have "0 \<le> sz * framewidth b" using assms by simp
  then show ?thesis using assms(1)
    by (simp add: Audio_getitem_def scale_bound_def py_slice_take)
qed

lemma getitem_tail:
  assumes "0 < sz" "0 < framewidth b"
  shows "Audio_getitem b (Some sz) None = clone b (drop (nat (sz * framewidth b)) (data b))"
proof -
  have "0 \<le> sz * framewidth b" using assms by simp
  then show ?thesis using assms(1)
    by (simp add: Audio_getitem_def scale_bound_def py_slice_drop)
qed

lemma int_le_div_iff:
  fixes a b c :: int
  assumes "0 < c"
  shows "(a \<le> b div c) = (a * c \<le> b)"
proof
  assume "a \<le> b div c"
  then have "a * c \<le> (b div c) * c" using assms by (simp add: mult_right_mono)
  also have "\<dots> = b - b mod c" by (simp add: minus_mod_eq_div_mult)
  also have "\<dots> \<le> b" using assms by simp
  finally show "a * c \<le> b" .
next
  assume "a * c \<le> b"
  then have "(a * c) div c \<le> b div c" using assms by (intro zdiv_mono1)
  then show "a \<le> b div c" using assms by simp
qed

lemma len_ge_iff:
  assumes "0 < sz" "0 < framewidth b"
  shows "(sz \<le> int (length (data b)) div framewidth b)
           = (nat (sz * framewidth b) \<le> length (data b))"
proof -
  have "0 \<le> sz * framewidth b" using assms by simp
  then show ?thesis using int_le_div_iff[OF assms(2), of sz "int (length (data b))"]
    by (simp add: nat_le_iff)
qed

text \<open>The inner loop on a buffer of whole frames.\<close>

lemma size_limit_while_chunks:
  assumes "0 < sz" "0 < framewidth f"
  shows "size_limit_while (clone f d) sz
     = Some (map (clone f) (full_chunks (nat (sz * framewidth f)) d),
             Inr (clone f (remainder (nat (sz * framewidth f)) d)))"
proof (induction "length d" arbitrary: d rule: less_induct)
  case less
  define n where "n = nat (sz * framewidth f)"
  have npos: "0 < n" using assms by (simp add: n_def)
  have l: "len (clone f d) = Inr (int (length d) div framewidth f)"
    using len_valid[of "clone f d"] assms by simp
  show ?case
  proof (cases "n \<le> length d")
    case True
    then have ge: "sz \<le> int (length d) div framewidth f"
      using len_ge_iff[of sz "clone f d"] assms by (simp add: n_def)
    have "length (drop n d) < length d" using True npos by simp
    from less[OF this]
    have IH: "size_limit_while (clone f (drop n d)) sz
       = Some (map (clone f) (full_chunks n (drop n d)), Inr (clone f (remainder n (drop n d))))"
      by (simp add: n_def)
    have fc: "full_chunks n d = take n d # full_chunks n (drop n d)"
      using True npos by (subst full_chunks.simps) simp
    have rm: "remainder n d = remainder n (drop n d)"
      using True npos by (subst remainder.simps) simp
    show ?thesis
      using ge IH fc rm assms getitem_head[of sz "clone f d"] getitem_tail[of sz "clone f d"]
      by (subst size_limit_while.simps) (simp add: l n_def)
  next
    case False
    then have lt: "\<not> sz \<le> int (length d) div framewidth f"
      using len_ge_iff[of sz "clone f d"] assms by (simp add: n_def)
    have fc: "full_chunks n d = []" using False by (subst full_chunks.simps) simp
    have rm: "remainder n d = d" using False by (subst remainder.simps) simp
    show ?thesis using lt fc rm
      by (subst size_limit_while.simps) (simp add: l n_def)
  qed
qed


lemma Audio_bool_whole:
  assumes "0 < framewidth f" "framewidth f dvd int (length r)"
  shows "Audio_bool (clone f r) = Inr (r \<noteq> [])"
proof -
  have "(0 < int (length r) div framewidth f) = (r \<noteq> [])"
  proof (cases "r = []")
    case True then show ?thesis by simp
  next
    case False
    then have "0 < int (length r)" by simp
    with assms have "framewidth f \<le> int (length r)" by (intro zdvd_imp_le)
    with assms(1) False show ?thesis by (simp add: pos_imp_zdiv_pos_iff)
  qed
  then show ?thesis
    using len_valid[of "clone f r"] assms(1) by (simp add: Audio_bool_def)
qed

lemma size_limit_loop_chunks:
  assumes "0 < sz" "0 < framewidth f"
    and "\<forall>p\<in>set ps. p = clone f (data p) \<and> framewidth f dvd int (length (data p))"
    and "(buf = None \<and> r = []) \<or> buf = Some (clone f r)"
    and "framewidth f dvd int (length r)" "length r < nat (sz * framewidth f)"
  shows "size_limit_loop buf sz ps
     = Some (map (clone f) (full_chunks (nat (sz * framewidth f)) (r @ concat (map data ps)))
             @ flush f (remainder (nat (sz * framewidth f)) (r @ concat (map data ps))),
             Returns)"
  using assms(3-)
proof (induction ps arbitrary: buf r)
  case Nil
  define n where "n = nat (sz * framewidth f)"
  have fc: "full_chunks n r = []" using Nil(4) by (subst full_chunks.simps) (simp add: n_def)
  have rm: "remainder n r = r" using Nil(4) by (subst remainder.simps) (simp add: n_def)
  from Nil(2) show ?case
  proof
    assume "buf = None \<and> r = []"
    then show ?thesis using fc rm by (simp add: flush_def n_def)
  next
    assume "buf = Some (clone f r)"
    then show ?thesis
      using fc rm Audio_bool_whole[OF assms(2) Nil(3)] by (simp add: flush_def n_def)
  qed
next
  case (Cons p ps)
  define n where "n = nat (sz * framewidth f)"
  have npos: "0 < n" using assms(1,2) by (simp add: n_def)
  have p: "p = clone f (data p)" "framewidth f dvd int (length (data p))"
    using Cons.prems(1) by auto
  have fmt: "channels p = channels f" "width p = width f" "rate p = rate f"
    using p(1) by (metis clone_simps(1), metis clone_simps(2), metis clone_simps(3))
  have joined: "(case buf of None \<Rightarrow> Inr p
            | Some b \<Rightarrow> (case Audio_bool b of Inl e \<Rightarrow> Inl e
                 | Inr t \<Rightarrow> if t then Audio_add b p else Inr p))
        = Inr (clone f (r @ data p))"
    using Cons.prems(2)
  proof
    assume "buf = None \<and> r = []"
    then show ?thesis using p(1) by simp
  next
    assume b: "buf = Some (clone f r)"
    show ?thesis
    proof (cases "r = []")
      case True
      then show ?thesis using b p(1) Audio_bool_whole[OF assms(2) Cons.prems(3)] by simp
    next
      case False
      then show ?thesis using b fmt Audio_bool_whole[OF assms(2) Cons.prems(3)]
        by (simp add: Audio_add_def)
    qed
  qed
  let ?r' = "remainder n (r @ data p)"
  have w: "size_limit_while (clone f (r @ data p)) sz
     = Some (map (clone f) (full_chunks n (r @ data p)), Inr (clone f ?r'))"
    using size_limit_while_chunks[OF assms(1,2)] by (simp add: n_def)
  have len_r': "length ?r' = length (r @ data p) mod n"
    using npos by (rule length_remainder)
  have "length ?r' < n" using npos by (simp add: len_r')
  then have lt: "length ?r' < nat (sz * framewidth f)" by (simp add: n_def)
  have "framewidth f dvd int (length (r @ data p))"
    using Cons.prems(3) p(2) by simp
  moreover have "framewidth f dvd int n"
    using assms(1,2) by (simp add: n_def)
  ultimately have dv: "framewidth f dvd int (length ?r')"
    unfolding len_r' zmod_int by (rule dvd_mod)
  have IH: "size_limit_loop (Some (clone f ?r')) sz ps
     = Some (map (clone f) (full_chunks n (?r' @ concat (map data ps)))
             @ flush f (remainder n (?r' @ concat (map data ps))), Returns)"
    using Cons.IH[of "Some (clone f ?r')" ?r'] Cons.prems(1) dv lt by (simp add: n_def)
  have fa: "full_chunks n ((r @ data p) @ concat (map data ps))
      = full_chunks n (r @ data p) @ full_chunks n (?r' @ concat (map data ps))"
    by (rule full_chunks_append)
  have ra: "remainder n ((r @ data p) @ concat (map data ps))
      = remainder n (?r' @ concat (map data ps))"
    by (rule remainder_append)
  show ?case
    unfolding size_limit_loop.simps joined
    using w IH fa ra by (simp add: n_def)
qed


lemma length_concat_frames:
  assumes "\<forall>p\<in>set ps. framewidth p = F \<and> F dvd int (length (data p))"
  shows "int (length (concat (map data ps))) = total_frames ps * F"
  using assms by (induction ps) (auto simp: total_frames_def algebra_simps)

lemma map_data_clone [simp]: "map data (map (clone f) cs) = cs"
  by (induction cs) simp_all

text \<open>
  C3, as the code has it: on buffers of one format with a positive frame width and
  whole frames, totalling \<open>D\<close> frames, and for a chunk size \<open>N > 0\<close>, the transform ends normally
  after yielding \<open>D div N\<close> chunks of exactly \<open>N\<close> frames, followed by one chunk of
  \<open>D mod N\<close> frames exactly when \<open>D mod N\<close> is not zero; no chunk is empty, every chunk
  has the format of the input, and the data of the chunks, concatenated in order, is
  the data of the input, concatenated in order.
\<close>

theorem size_limit_chunks:
  assumes "0 < sz" and "0 < framewidth f"
    and "\<forall>p\<in>set ps. channels p = channels f \<and> width p = width f \<and> rate p = rate f
                    \<and> framewidth f dvd int (length (data p))"
  shows "\<exists>out. size_limit ps sz = Some (out, Returns)
     \<and> int (length out) = total_frames ps div sz + (if total_frames ps mod sz = 0 then 0 else 1)
     \<and> (\<forall>i. int i < total_frames ps div sz \<longrightarrow> len (out ! i) = Inr sz)
     \<and> (total_frames ps mod sz \<noteq> 0 \<longrightarrow> len (last out) = Inr (total_frames ps mod sz))
     \<and> (\<forall>c\<in>set out. len c \<noteq> Inr 0
            \<and> channels c = channels f \<and> width c = width f \<and> rate c = rate f)
     \<and> concat (map data out) = concat (map data ps)"
proof -
  define F where "F = framewidth f"
  define n where "n = nat (sz * F)"
  define d where "d = concat (map data ps)"
  define D where "D = total_frames ps"
  define cs where "cs = full_chunks n d"
  define rm where "rm = remainder n d"
  define out where "out = map (clone f) cs @ flush f rm"
  have Fpos: "0 < F" using assms(2) by (simp add: F_def)
  have npos: "0 < n" using assms(1) Fpos by (simp add: n_def)
  have n_int: "int n = sz * F" using assms(1) Fpos by (simp add: n_def)
  have same: "\<forall>p\<in>set ps. p = clone f (data p) \<and> framewidth f dvd int (length (data p))"
    using assms(3) by (auto simp: clone_def)
  have fws: "\<forall>p\<in>set ps. framewidth p = F \<and> F dvd int (length (data p))"
    using assms(3) by (auto simp: framewidth_def F_def)
  have run: "size_limit ps sz = Some (out, Returns)"
    using size_limit_loop_chunks[OF assms(1,2) same, of None "[]"] assms(1,2)
    by (simp add: size_limit_def out_def cs_def rm_def n_def d_def F_def)
  have len_d: "int (length d) = D * F"
    using length_concat_frames[OF fws] by (simp add: d_def D_def)
  have len_cs: "int (length cs) = D div sz"
  proof -
    have "int (length cs) = int (length d) div int n"
      using npos by (simp add: cs_def length_full_chunks zdiv_int)
    also have "\<dots> = (D * F) div (sz * F)" by (simp add: len_d n_int)
    also have "\<dots> = D div sz" using Fpos by simp
    finally show ?thesis .
  qed
  have len_rm: "int (length rm) = (D mod sz) * F"
  proof -
    have "int (length rm) = int (length d) mod int n"
      using npos by (simp add: rm_def length_remainder zmod_int)
    also have "\<dots> = (D * F) mod (sz * F)" by (simp add: len_d n_int)
    also have "\<dots> = (D mod sz) * F" by (simp add: mult_mod_left)
    finally show ?thesis .
  qed
  have rm_empty: "(rm = []) = (D mod sz = 0)"
  proof -
    have "(rm = []) = (int (length rm) = 0)" by simp
    also have "\<dots> = (D mod sz = 0)" unfolding len_rm using Fpos by simp
    finally show ?thesis .
  qed
  have len_chunk: "len (clone f c) = Inr sz" if "c \<in> set cs" for c
  proof -
    have "length c = n" using that set_full_chunks by (auto simp: cs_def)
    then have "int (length c) div F = sz" using Fpos by (simp add: n_int)
    then show ?thesis using len_valid[of "clone f c"] Fpos by (simp add: F_def)
  qed
  have len_last: "len (clone f rm) = Inr (D mod sz)"
    using len_valid[of "clone f rm"] Fpos len_rm by (simp add: F_def)
  have 1: "int (length out) = D div sz + (if D mod sz = 0 then 0 else 1)"
    using len_cs rm_empty by (simp add: out_def flush_def)
  have 2: "len (out ! i) = Inr sz" if "int i < D div sz" for i
  proof -
    have i: "i < length cs" using that len_cs by simp
    then have "out ! i = clone f (cs ! i)" by (simp add: out_def nth_append)
    then show ?thesis using len_chunk[of "cs ! i"] i by simp
  qed
  have 3: "len (last out) = Inr (D mod sz)" if "D mod sz \<noteq> 0"
    using that rm_empty len_last by (simp add: out_def flush_def)
  have 4: "len c \<noteq> Inr 0 \<and> channels c = channels f \<and> width c = width f \<and> rate c = rate f"
    if "c \<in> set out" for c
  proof -
    from that consider c' where "c' \<in> set cs" "c = clone f c'" | "rm \<noteq> []" "c = clone f rm"
      by (auto simp: out_def flush_def split: if_splits)
    then show ?thesis
    proof cases
      case 1
      then show ?thesis using len_chunk[of c'] assms(1) by simp
    next
      case 2
      then show ?thesis using len_last rm_empty by simp
    qed
  qed
  have 5: "concat (map data out) = concat (map data ps)"
  proof -
    have "concat (map data out) = concat cs @ rm"
      by (simp add: out_def flush_def comp_def)
    also have "\<dots> = d" unfolding cs_def rm_def by (rule concat_full_chunks)
    finally show ?thesis by (simp add: d_def)
  qed
  have "size_limit ps sz = Some (out, Returns)
     \<and> int (length out) = D div sz + (if D mod sz = 0 then 0 else 1)
     \<and> (\<forall>i. int i < D div sz \<longrightarrow> len (out ! i) = Inr sz)
     \<and> (D mod sz \<noteq> 0 \<longrightarrow> len (last out) = Inr (D mod sz))
     \<and> (\<forall>c\<in>set out. len c \<noteq> Inr 0
            \<and> channels c = channels f \<and> width c = width f \<and> rate c = rate f)
     \<and> concat (map data out) = concat (map data ps)"
    using run 1 2 3 4 5 by simp
  then show ?thesis unfolding D_def by (rule exI)
qed


theorem size_limit_chunks_witness:
  "\<exists>out. size_limit [\<lparr>channels = 1, width = 2, rate = 8000, data = [1, 2, 3, 4, 5, 6]\<rparr>,
                     \<lparr>channels = 1, width = 2, rate = 8000, data = [7, 8, 9, 10]\<rparr>] 2
            = Some (out, Returns)
     \<and> length out = 3
     \<and> len (out ! 0) = Inr 2 \<and> len (out ! 1) = Inr 2 \<and> len (last out) = Inr 1
     \<and> concat (map data out) = [1, 2, 3, 4, 5, 6, 7, 8, 9, 10]"
proof -
  let ?f = "\<lparr>channels = 1, width = 2, rate = 8000, data = []\<rparr>"
  let ?ps = "[\<lparr>channels = 1, width = 2, rate = 8000, data = [1, 2, 3, 4, 5, 6]\<rparr>,
              \<lparr>channels = 1, width = 2, rate = 8000, data = [7, 8, 9, 10 :: byte]\<rparr>]"
  have t: "total_frames ?ps = 5" by (simp add: total_frames_def framewidth_def)
  from size_limit_chunks[of 2 ?f ?ps] obtain out where
    out: "size_limit ?ps 2 = Some (out, Returns)"
      "int (length out) = total_frames ?ps div 2 + (if total_frames ?ps mod 2 = 0 then 0 else 1)"
      "\<forall>i. int i < total_frames ?ps div 2 \<longrightarrow> len (out ! i) = Inr 2"
      "total_frames ?ps mod 2 \<noteq> 0 \<longrightarrow> len (last out) = Inr (total_frames ?ps mod 2)"
      "concat (map data out) = concat (map data ?ps)"
    by (auto simp: framewidth_def)
  from out(2) have "length out = 3" unfolding t by simp
  moreover from out(3) have "len (out ! 0) = Inr 2" "len (out ! 1) = Inr 2"
    unfolding t by simp_all
  moreover from out(4) have "len (last out) = Inr 1" unfolding t by simp
  ultimately show ?thesis using out(1,5) by auto
qed


lemma size_limit_while_partial_frame:
  "size_limit_while \<lparr>channels = 1, width = 2, rate = 8000, data = [1, 2, 3]\<rparr> 1
     = Some ([\<lparr>channels = 1, width = 2, rate = 8000, data = [1, 2]\<rparr>],
             Inr \<lparr>channels = 1, width = 2, rate = 8000, data = [3]\<rparr>)"
  by (subst size_limit_while.simps, subst size_limit_while.simps)
     (simp add: len_def framewidth_def Audio_getitem_def scale_bound_def py_slice_def
        slice_bound_def clone_def)

lemma size_limit_while_lone_byte:
  "size_limit_while \<lparr>channels = 1, width = 2, rate = 8000, data = [4]\<rparr> 1
     = Some ([], Inr \<lparr>channels = 1, width = 2, rate = 8000, data = [4]\<rparr>)"
  by (subst size_limit_while.simps) (simp add: len_def framewidth_def)

text \<open>
  Without whole frames the transform loses data: of a three-byte and a one-byte buffer
  of two-byte frames, cut into chunks of one frame, only the first two bytes are
  yielded, because a buffer of less than one frame counts as empty and is replaced by
  the next packet or left behind at the end. With a frame width of zero the first
  length test raises.
\<close>

theorem size_limit_partial_frames_counterexample:
  "size_limit [\<lparr>channels = 1, width = 2, rate = 8000, data = [1, 2, 3]\<rparr>,
               \<lparr>channels = 1, width = 2, rate = 8000, data = [4]\<rparr>] 1
     = Some ([\<lparr>channels = 1, width = 2, rate = 8000, data = [1, 2]\<rparr>], Returns)
   \<and> concat (map data [\<lparr>channels = 1, width = 2, rate = 8000, data = [1, 2]\<rparr>])
     \<noteq> concat (map data [\<lparr>channels = 1, width = 2, rate = 8000, data = [1, 2, 3]\<rparr>,
                           \<lparr>channels = 1, width = 2, rate = 8000, data = [4 :: byte]\<rparr>])
   \<and> size_limit [\<lparr>channels = 0, width = 2, rate = 8000, data = []\<rparr>] 1
     = Some ([], Raises ZeroDivisionError)"
proof -
  have z: "size_limit_while \<lparr>channels = 0, width = 2, rate = 8000, data = []\<rparr> 1
     = Some ([], Inl ZeroDivisionError)"
    by (subst size_limit_while.simps) (simp add: len_def framewidth_def)
  show ?thesis
    by (simp add: size_limit_def size_limit_while_partial_frame size_limit_while_lone_byte z Audio_bool_def len_def framewidth_def)
qed


section \<open>Properties of the sample-wise mix\<close>

text \<open>
  \<^verbatim>\<open>combine\<close> never reads the channel count or the rate of either buffer, nor the
  sample width of the second.
\<close>

lemma combine_ignores_format:
  "combine self (other\<lparr>channels := c, width := w, rate := r\<rparr>) = combine self other"
  by (simp add: combine_def)

text \<open>
  C2, at an input where the code departs from it: two one-byte mono buffers of rates
  8000 Hz and 16000 Hz are mixed without any error; the result is the sample-wise sum
  in the format of the first.
\<close>

theorem combine_mixes_different_rates:
  "combine \<lparr>channels = 1, width = 1, rate = 8000, data = [1]\<rparr>
           \<lparr>channels = 1, width = 1, rate = 16000, data = [2]\<rparr>
     = Inr \<lparr>channels = 1, width = 1, rate = 8000, data = [3]\<rparr>"
  by (simp add: combine_def audioop_add_def clone_def full_chunks.simps le_signed_def clip_def)

section \<open>Properties of the WAV container\<close>

lemma length_le_bytes [simp]: "length (le_bytes k v) = k"
  by (induction k arbitrary: v) simp_all

lemma le_unsigned_le_bytes:
  "0 \<le> v \<Longrightarrow> v < 256 ^ k \<Longrightarrow> le_unsigned (le_bytes k v) = v"
proof (induction k arbitrary: v)
  case 0
  then show ?case by simp
next
  case (Suc k)
  have "0 \<le> v div 256" using Suc.prems(1) by (simp add: pos_imp_zdiv_nonneg_iff)
  moreover have "v div 256 < 256 ^ k"
    using int_le_div_iff[of 256 "256 ^ k" v] Suc.prems(2) by simp
  ultimately have "le_unsigned (le_bytes k (v div 256)) = v div 256" by (rule Suc.IH)
  then show ?case by (simp add: uint_word_of_int_eq take_bit_eq_mod)
qed


lemma pack_uint_ok: "0 \<le> v \<Longrightarrow> v < 256 ^ k \<Longrightarrow> pack_uint k v = Inr (le_bytes k v)"
  by (simp add: pack_uint_def)

lemma valid_ranges:
  assumes "wav_valid a"
  shows "channels a < 2 ^ 16" "rate a < 2 ^ 32" "width a * 8 < 2 ^ 16"
    "0 \<le> channels a * width a" "0 \<le> channels a * rate a * width a"
proof -
  from assms have c: "1 \<le> channels a" and w: "1 \<le> width a" "width a \<le> 4" and r: "1 \<le> rate a"
    and cw: "channels a * width a < 2 ^ 16" and crw: "channels a * rate a * width a < 2 ^ 32"
    by (simp_all add: wav_valid_def)
  have "channels a * 1 \<le> channels a * width a" using c w by (intro mult_left_mono) simp_all
  then show "channels a < 2 ^ 16" using cw by simp
  have "1 * rate a \<le> channels a * rate a" using c r by (intro mult_right_mono) simp_all
  moreover have "channels a * rate a * 1 \<le> channels a * rate a * width a"
    using c r w by (intro mult_left_mono) simp_all
  ultimately show "rate a < 2 ^ 32" using crw by simp
  show "width a * 8 < 2 ^ 16" using w by simp
  show "0 \<le> channels a * width a" using c w by simp
  show "0 \<le> channels a * rate a * width a" using c w r by simp
qed

lemma wave_header_ok:
  assumes "wav_valid a" "0 \<le> n" "n \<le> int (length (data a))"
  shows "wave_header (channels a) (width a) (rate a) n
           = Inr (header_bytes (channels a) (width a) (rate a) n)"
proof -
  from assms have c: "1 \<le> channels a" and w: "1 \<le> width a" and r: "1 \<le> rate a"
    and cw: "channels a * width a < 2 ^ 16" and crw: "channels a * rate a * width a < 2 ^ 32"
    and n: "36 + n < 2 ^ 32"
    by (simp_all add: wav_valid_def)
  note rg = valid_ranges[OF assms(1)]
  have 1: "pack_uint 4 (36 + n) = Inr (le_bytes 4 (36 + n))"
    using assms(2) n by (intro pack_uint_ok) simp_all
  have 2: "pack_uint 4 n = Inr (le_bytes 4 n)"
    using assms(2) n by (intro pack_uint_ok) simp_all
  have 3: "pack_uint 2 (channels a) = Inr (le_bytes 2 (channels a))"
    using c rg(1) by (intro pack_uint_ok) simp_all
  have 4: "pack_uint 4 (rate a) = Inr (le_bytes 4 (rate a))"
    using r rg(2) by (intro pack_uint_ok) simp_all
  have 5: "pack_uint 4 (channels a * rate a * width a) = Inr (le_bytes 4 (channels a * rate a * width a))"
    using rg(5) crw by (intro pack_uint_ok) simp_all
  have 6: "pack_uint 2 (channels a * width a) = Inr (le_bytes 2 (channels a * width a))"
    using rg(4) cw by (intro pack_uint_ok) simp_all
  have 7: "pack_uint 2 (width a * 8) = Inr (le_bytes 2 (width a * 8))"
    using w rg(3) by (intro pack_uint_ok) simp_all
  have 8: "pack_uint 4 16 = Inr (le_bytes 4 16)" "pack_uint 2 1 = Inr (le_bytes 2 1)"
    by (simp_all add: pack_uint_def)
  show ?thesis
    by (simp add: wave_header_def header_bytes_def 1 2 3 4 5 6 7 8)
qed

lemma to_wav_ok:
  assumes "wav_valid a"
  shows "to_wav a = Inr (BytesIO (header_bytes (channels a) (width a) (rate a)
                            (int (length (data a))) @ data a) 0)"
proof -
  define n where "n = int (length (data a))"
  define i where "i = n div (channels a * width a) * channels a * width a"
  from assms have c: "1 \<le> channels a" and w: "1 \<le> width a" "width a \<le> 4" and r: "1 \<le> rate a"
    by (simp_all add: wav_valid_def)
  have fw: "0 < channels a * width a" using c w by simp
  have i_eq: "i = n div (channels a * width a) * (channels a * width a)"
    by (simp add: i_def mult.assoc)
  have "0 \<le> n div (channels a * width a)"
    using fw by (simp add: n_def pos_imp_zdiv_nonneg_iff)
  then have i0: "0 \<le> i" unfolding i_eq using fw by simp
  have "i = n - n mod (channels a * width a)"
    unfolding i_eq by (simp add: minus_mod_eq_div_mult)
  then have "i \<le> n" using fw by simp
  note i = i0 this
  have h0: "wave_header (channels a) (width a) (rate a) i
           = Inr (header_bytes (channels a) (width a) (rate a) i)"
    using wave_header_ok[OF assms i(1)] i(2) by (simp add: n_def)
  have h: "wave_header (channels a) (width a) (rate a) n
           = Inr (header_bytes (channels a) (width a) (rate a) n)"
    using wave_header_ok[OF assms, of n] by (simp add: n_def)
  show ?thesis
    using c w r h0 h
    by (simp add: to_wav_def Let_def n_def[symmetric] i_def[symmetric])
qed


lemma tags_distinct [simp]: "tag_fmt \<noteq> tag_data" "length tag_fmt = 4" "length tag_data = 4"
  "length tag_RIFF = 4" "length tag_WAVE = 4"
  by (simp_all add: tag_fmt_def tag_data_def tag_RIFF_def tag_WAVE_def)

lemma length_fmt_body [simp]: "length (fmt_body c w r) = 16"
  by (simp add: fmt_body_def)

lemma read_fmt_chunk_ok:
  assumes "wav_valid a"
  shows "read_fmt_chunk (fmt_body (channels a) (width a) (rate a))
           = Inr (channels a, width a, rate a)"
proof -
  from assms have c: "1 \<le> channels a" and w: "1 \<le> width a" "width a \<le> 4" and r: "1 \<le> rate a"
    by (simp_all add: wav_valid_def)
  note rg = valid_ranges[OF assms]
  have t: "le_unsigned (le_bytes 2 1) = 1" by (intro le_unsigned_le_bytes) simp_all
  have n: "le_unsigned (le_bytes 2 (channels a)) = channels a"
    using c rg(1) by (intro le_unsigned_le_bytes) simp_all
  have f: "le_unsigned (le_bytes 4 (rate a)) = rate a"
    using r rg(2) by (intro le_unsigned_le_bytes) simp_all
  have b: "le_unsigned (le_bytes 2 (width a * 8)) = width a * 8"
    using w rg(3) by (intro le_unsigned_le_bytes) simp_all
  have sw: "(width a * 8 + 7) div 8 = width a" by simp
  show ?thesis
    using c w by (simp add: read_fmt_chunk_def fmt_body_def t n f b sw)
qed

lemma header_bytes_alt:
  "header_bytes c w r n = tag_RIFF @ le_bytes 4 (36 + n) @ tag_WAVE
     @ tag_fmt @ le_bytes 4 16 @ fmt_body c w r @ tag_data @ le_bytes 4 n"
  by (simp add: header_bytes_def fmt_body_def)

lemma wave_chunks_data:
  assumes "int (length d) < 2 ^ 32"
  shows "wave_chunks (Some (c, w, r)) (8 + int (length d)) (tag_data @ le_bytes 4 (int (length d)) @ d)
           = Inr \<lparr>channels = c, width = w, rate = r, data = d\<rparr>"
proof -
  have sz: "le_unsigned (le_bytes 4 (int (length d))) = int (length d)"
    using assms by (intro le_unsigned_le_bytes) simp_all
  have m: "nat (min 8 (8 + int (length d))) = 8" by simp
  show ?thesis
    by (subst wave_chunks.simps) (simp add: m sz Let_def)
qed

lemma wave_chunks_fmt:
  assumes "wav_valid a" "0 \<le> m"
  shows "wave_chunks None (24 + m) (tag_fmt @ le_bytes 4 16 @ fmt_body (channels a) (width a) (rate a) @ rest)
           = wave_chunks (Some (channels a, width a, rate a)) m rest"
proof -
  have sz: "le_unsigned (le_bytes 4 16) = 16" by (intro le_unsigned_le_bytes) simp_all
  have m8: "nat (min 8 (24 + m)) = 8" using assms(2) by simp
  have m16: "nat (min 16 (24 + m - 8)) = 16" using assms(2) by simp
  show ?thesis
    using assms(2)
    by (subst wave_chunks.simps)
       (simp add: m8 m16 sz Let_def read_fmt_chunk_ok[OF assms(1)])
qed

lemma wave_read_ok:
  assumes "wav_valid a"
  shows "wave_read (header_bytes (channels a) (width a) (rate a) (int (length (data a))) @ data a)
           = Inr a"
proof -
  define n where "n = int (length (data a))"
  have n: "0 \<le> n" "n < 2 ^ 32" "36 + n < 2 ^ 32" using assms by (simp_all add: n_def wav_valid_def)
  have sz: "le_unsigned (le_bytes 4 (36 + n)) = 36 + n"
    using n by (intro le_unsigned_le_bytes) simp_all
  have m4: "nat (min 4 (36 + n)) = 4" using n(1) by simp
  have a_eq: "\<lparr>channels = channels a, width = width a, rate = rate a, data = data a\<rparr> = a"
    by simp
  have chunks: "wave_chunks None (32 + n)
          (tag_fmt @ le_bytes 4 16 @ fmt_body (channels a) (width a) (rate a)
             @ (tag_data @ le_bytes 4 n @ data a))
        = Inr a"
    using wave_chunks_fmt[OF assms, of "8 + n"] wave_chunks_data[of "data a"] n
    by (simp add: n_def a_eq)
  have f: "header_bytes (channels a) (width a) (rate a) n @ data a
      = tag_RIFF @ le_bytes 4 (36 + n) @ tag_WAVE
        @ (tag_fmt @ le_bytes 4 16 @ fmt_body (channels a) (width a) (rate a)
             @ (tag_data @ le_bytes 4 n @ data a))"
    by (simp add: header_bytes_alt)
  show ?thesis
    unfolding n_def[symmetric] f wave_read_def
    by (simp only: Let_def) (simp add: sz m4 chunks)
qed


text \<open>
  C8, as the code has it: for a buffer that the WAV container can hold, \<^verbatim>\<open>to_wav\<close>
  returns a stream positioned at its start; \<^verbatim>\<open>load\<close> on that stream, and \<^verbatim>\<open>from_wav\<close>
  on the bytes the stream holds, give back a buffer with the same channels, sample
  width, rate and data.
\<close>

theorem wav_roundtrip:
  assumes "wav_valid a"
  shows "\<exists>content. to_wav a = Inr (BytesIO content 0)
           \<and> load (BytesIO content 0) = Inr a
           \<and> from_wav (Bytes content) = Inr a"
  using to_wav_ok[OF assms] wave_read_ok[OF assms]
  by (simp add: load_def from_wav_def)

lemma le_bytes_2: "le_bytes 2 v = [word_of_int v, word_of_int (v div 256)]"
  by (simp add: eval_nat_numeral)

lemma le_bytes_4:
  "le_bytes 4 v = [word_of_int v, word_of_int (v div 256), word_of_int (v div 256 div 256),
                   word_of_int (v div 256 div 256 div 256)]"
  by (simp add: eval_nat_numeral)

lemma to_wav_example:
  "to_wav \<lparr>channels = 2, width = 2, rate = 8000, data = [1, 2, 3, 4]\<rparr>
     = Inr (BytesIO [82, 73, 70, 70, 40, 0, 0, 0, 87, 65, 86, 69, 102, 109, 116, 32, 16,
        0, 0, 0, 1, 0, 2, 0, 64, 31, 0, 0, 0, 125, 0, 0, 4, 0, 16, 0, 100,
        97, 116, 97, 4, 0, 0, 0, 1, 2, 3, 4] 0)"
  by (simp add: to_wav_def wave_header_def pack_uint_def tag_RIFF_def tag_WAVE_def
        tag_fmt_def tag_data_def le_bytes_2 le_bytes_4)

theorem wav_roundtrip_witness:
  "to_wav \<lparr>channels = 2, width = 2, rate = 8000, data = [1, 2, 3, 4]\<rparr>
     = Inr (BytesIO [82, 73, 70, 70, 40, 0, 0, 0, 87, 65, 86, 69, 102, 109, 116, 32, 16,
        0, 0, 0, 1, 0, 2, 0, 64, 31, 0, 0, 0, 125, 0, 0, 4, 0, 16, 0, 100,
        97, 116, 97, 4, 0, 0, 0, 1, 2, 3, 4] 0)
   \<and> load (BytesIO [82, 73, 70, 70, 40, 0, 0, 0, 87, 65, 86, 69, 102, 109, 116, 32, 16,
        0, 0, 0, 1, 0, 2, 0, 64, 31, 0, 0, 0, 125, 0, 0, 4, 0, 16, 0, 100,
        97, 116, 97, 4, 0, 0, 0, 1, 2, 3, 4] 0)
     = Inr \<lparr>channels = 2, width = 2, rate = 8000, data = [1, 2, 3, 4]\<rparr>"
proof -
  have v: "wav_valid \<lparr>channels = 2, width = 2, rate = 8000, data = [1, 2, 3, 4]\<rparr>"
    by (simp add: wav_valid_def)
  from wav_roundtrip[OF v] to_wav_example show ?thesis by auto
qed

text \<open>
  \<^verbatim>\<open>from_wav\<close> applied to what \<^verbatim>\<open>to_wav\<close> returns raises \<open>TypeError\<close>: \<^verbatim>\<open>to_wav\<close>
  returns an \<^verbatim>\<open>io.BytesIO\<close>, and \<^verbatim>\<open>from_wav\<close> passes its argument to
  \<^verbatim>\<open>io.BytesIO(...)\<close>, which takes a bytes-like object.
\<close>

theorem from_wav_to_wav_counterexample:
  "to_wav \<lparr>channels = 2, width = 2, rate = 8000, data = [1, 2, 3, 4]\<rparr>
     = Inr (BytesIO [82, 73, 70, 70, 40, 0, 0, 0, 87, 65, 86, 69, 102, 109, 116, 32, 16,
        0, 0, 0, 1, 0, 2, 0, 64, 31, 0, 0, 0, 125, 0, 0, 4, 0, 16, 0, 100,
        97, 116, 97, 4, 0, 0, 0, 1, 2, 3, 4] 0)
   \<and> from_wav (BytesIO [82, 73, 70, 70, 40, 0, 0, 0, 87, 65, 86, 69, 102, 109, 116, 32, 16,
        0, 0, 0, 1, 0, 2, 0, 64, 31, 0, 0, 0, 125, 0, 0, 4, 0, 16, 0, 100,
        97, 116, 97, 4, 0, 0, 0, 1, 2, 3, 4] 0)
     = Inl (TypeError ''a bytes-like object is required, not _io.BytesIO'')"
  using to_wav_example by (simp add: from_wav_def)


end
